theory Spec2Isabelle
  imports Main "HOL-Library.AList" "HOL-Library.Sublist" "HOL-Library.Char_ord"
    "HOL-Library.List_Lexorder"
begin

section \<open>util.go: the static tables\<close>

definition LanguageGo :: string where "LanguageGo = ''golang''"
definition LanguageRuby :: string where "LanguageRuby = ''ruby''"
definition LanguagePython :: string where "LanguagePython = ''python''"
definition LanguageJava :: string where "LanguageJava = ''java''"
definition LanguageJavascript :: string where "LanguageJavascript = ''javascript''"

definition ServiceAudit :: string where "ServiceAudit = ''audit''"
definition ServiceAuthorization :: string where "ServiceAuthorization = ''authorization''"
definition ServiceCatalog :: string where "ServiceCatalog = ''catalog''"
definition ServiceCategory :: string where "ServiceCategory = ''category''"
definition ServiceDataspec :: string where "ServiceDataspec = ''dataspec''"
definition ServiceExports :: string where "ServiceExports = ''exports''"
definition ServiceGrants :: string where "ServiceGrants = ''grants''"
definition ServiceJabba :: string where "ServiceJabba = ''jabba''"
definition ServiceOrganizations :: string where "ServiceOrganizations = ''organizations''"
definition ServiceParser :: string where "ServiceParser = ''parser''"
definition ServiceQuery :: string where "ServiceQuery = ''query''"
definition ServiceReferences :: string where "ServiceReferences = ''references''"
definition ServiceSearch :: string where "ServiceSearch = ''search''"
definition ServiceSources :: string where "ServiceSources = ''sources''"
definition ServiceTaskrunner :: string where "ServiceTaskrunner = ''taskrunner''"
definition ServiceUploads :: string where "ServiceUploads = ''uploads''"
definition ServiceWarehouses :: string where "ServiceWarehouses = ''warehouses''"

text \<open>The three \<^verbatim>\<open>switch\<close> statements: a listed case returns true, the default false.\<close>

definition IsValidLanguage :: "string \<Rightarrow> bool" where
  "IsValidLanguage lang =
     (if lang = LanguageGo \<or> lang = LanguageRuby \<or> lang = LanguagePython
         \<or> lang = LanguageJava \<or> lang = LanguageJavascript
      then True else False)"

definition IsValidPublicService :: "string \<Rightarrow> bool" where
  "IsValidPublicService s =
     (if s = ServiceAuthorization \<or> s = ServiceCatalog \<or> s = ServiceCategory
         \<or> s = ServiceDataspec \<or> s = ServiceExports \<or> s = ServiceGrants
         \<or> s = ServiceOrganizations \<or> s = ServiceQuery \<or> s = ServiceReferences
         \<or> s = ServiceSearch \<or> s = ServiceSources \<or> s = ServiceUploads
         \<or> s = ServiceWarehouses
      then True else False)"

definition IsValidPrivateService :: "string \<Rightarrow> bool" where
  "IsValidPrivateService s =
     (if s = ServiceAudit \<or> s = ServiceJabba \<or> s = ServiceParser \<or> s = ServiceCatalog
         \<or> s = ServiceCategory \<or> s = ServiceExports \<or> s = ServiceGrants
         \<or> s = ServiceOrganizations \<or> s = ServiceQuery \<or> s = ServiceReferences
         \<or> s = ServiceSources \<or> s = ServiceWarehouses \<or> s = ServiceTaskrunner
      then True else False)"

section \<open>The operating system as the code sees it\<close>

subsection \<open>Paths (package path/filepath)\<close>

text \<open>
  Every directory the pipeline works in is absolute (the temporary area, the working
  directory), so a path is kept in cleaned form, as the list of its components below
  the root. \<open>Join\<close> is \<^verbatim>\<open>filepath.Join\<close> with such a path as its first
  element: the further elements are split at the separator and \<^verbatim>\<open>filepath.Clean\<close>
  is applied component by component (an empty component and \<^verbatim>\<open>.\<close> vanish,
  \<^verbatim>\<open>..\<close> drops the component before it and stays at the root).
\<close>

type_synonym path = "string list"

fun split_sep :: "string \<Rightarrow> string list" where
  "split_sep [] = [[]]"
| "split_sep (c # cs) =
     (if c = CHR ''/'' then [] # split_sep cs
      else (case split_sep cs of [] \<Rightarrow> [[c]] | x # xs \<Rightarrow> (c # x) # xs))"

definition clean_step :: "path \<Rightarrow> string \<Rightarrow> path" where
  "clean_step p c =
     (if c = [] \<or> c = ''.'' then p else if c = ''..'' then butlast p else p @ [c])"

definition Join :: "path \<Rightarrow> string list \<Rightarrow> path" where
  "Join dir elems = foldl clean_step dir (concat (map split_sep elems))"

text \<open>The text of a path, as \<^verbatim>\<open>%s\<close> prints it.\<close>

definition path_string :: "path \<Rightarrow> string" where
  "path_string p = (if p = [] then ''/'' else concat (map (\<lambda>c. CHR ''/'' # c) p))"

text \<open>
  \<^verbatim>\<open>filepath.Ext\<close>: scan from the last byte towards the front, stop at a separator,
  return the text from the first dot met; no dot, no extension.
\<close>

fun ext_scan :: "string \<Rightarrow> string \<Rightarrow> string" where
  "ext_scan [] acc = []"
| "ext_scan (c # cs) acc =
     (if c = CHR ''/'' then []
      else if c = CHR ''.'' then c # acc
      else ext_scan cs (c # acc))"

definition Ext :: "string \<Rightarrow> string" where
  "Ext name = ext_scan (rev name) []"


subsection \<open>Files, processes and the world\<close>

text \<open>
  The file system maps a path to a regular file with its bytes or to a directory. It is an
  association list so that a directory can be enumerated.
\<close>

datatype node = File string | Directory

type_synonym filesystem = "(path \<times> node) list"

text \<open>
  A fault is an error the operating system answers a call with (permissions, a full disk,
  a failed read): its text, and for \<^verbatim>\<open>io.Copy\<close> the number of bytes that had
  reached the destination when it struck.
\<close>

datatype fault = Fault (reason: string) (written: nat)

text \<open>The calls the program makes, in the order it makes them.\<close>

datatype event =
    MkdirTempEv path string
  | MkdirEv path
  | ReadDirEv path
  | OpenEv path
  | CreateEv path
  | CopyEv path path
  | RemoveAllEv path
  | GetwdEv
  | PipeEv
  | StartEv string "string list"
  | ReadAllEv
  | WaitEv

text \<open>
  What a launched program does: the bytes it writes to its two streams, the error
  \<^verbatim>\<open>Wait\<close> reports for its exit status (none for status 0), and the file system
  it leaves.
\<close>

record process =
  stdout :: string
  stderr :: string
  status :: "string option"
  leaves :: filesystem

text \<open>
  The world: the file system, the answers of the operating system to the coming calls
  (\<open>None\<close>: the call runs; an exhausted schedule answers \<open>None\<close>), the calls made so
  far, the log, \<^verbatim>\<open>os.TempDir()\<close>, the working directory, the random suffixes
  \<^verbatim>\<open>os.MkdirTemp\<close> draws, and the programs \<^verbatim>\<open>exec.Command\<close> can run.
\<close>

record world =
  fs :: filesystem
  schedule :: "fault option list"
  events :: "event list"
  logs :: "string list"
  tempdir :: path
  workdir :: path
  suffixes :: "string list"
  programs :: "string \<Rightarrow> string list \<Rightarrow> filesystem \<Rightarrow> process"

definition syscall :: "event \<Rightarrow> world \<Rightarrow> fault option \<times> world" where
  "syscall ev w =
     ((case schedule w of [] \<Rightarrow> None | f # _ \<Rightarrow> f),
      w\<lparr>events := events w @ [ev], schedule := tl (schedule w)\<rparr>)"

definition Printf :: "string \<Rightarrow> world \<Rightarrow> world" where
  "Printf s w = w\<lparr>logs := logs w @ [s]\<rparr>"

text \<open>\<^verbatim>\<open>os.ReadDir\<close> returns the entries of the directory sorted by file name.\<close>

definition entries :: "filesystem \<Rightarrow> path \<Rightarrow> string list" where
  "entries t dir = sort (remdups [last p. (p, _) \<leftarrow> t, p \<noteq> [] \<and> butlast p = dir])"

definition is_dir :: "filesystem \<Rightarrow> path \<Rightarrow> bool" where
  "is_dir t p = (map_of t p = Some Directory)"

definition ReadDir :: "path \<Rightarrow> world \<Rightarrow> (string + string list) \<times> world" where
  "ReadDir dir w =
     (case syscall (ReadDirEv dir) w of
        (Some f, w') \<Rightarrow> (Inl (reason f), w')
      | (None, w') \<Rightarrow>
          (case map_of (fs w') dir of
             None \<Rightarrow> (Inl ''no such file or directory'', w')
           | Some (File _) \<Rightarrow> (Inl ''not a directory'', w')
           | Some Directory \<Rightarrow> (Inr (entries (fs w') dir), w')))"

text \<open>
  An open file is named by the path it was opened on. \<^verbatim>\<open>os.Open\<close> opens a
  directory as well as a file; reading from it fails later.
\<close>

definition Open :: "path \<Rightarrow> world \<Rightarrow> (string + path) \<times> world" where
  "Open p w =
     (case syscall (OpenEv p) w of
        (Some f, w') \<Rightarrow> (Inl (reason f), w')
      | (None, w') \<Rightarrow>
          (case map_of (fs w') p of
             None \<Rightarrow> (Inl ''no such file or directory'', w')
           | Some _ \<Rightarrow> (Inr p, w')))"

text \<open>\<^verbatim>\<open>os.Create\<close> creates the file or truncates the one that is there.\<close>

definition Create :: "path \<Rightarrow> world \<Rightarrow> (string + path) \<times> world" where
  "Create p w =
     (case syscall (CreateEv p) w of
        (Some f, w') \<Rightarrow> (Inl (reason f), w')
      | (None, w') \<Rightarrow>
          (if p = [] \<or> map_of (fs w') p = Some Directory then (Inl ''is a directory'', w')
           else if \<not> is_dir (fs w') (butlast p) then (Inl ''no such file or directory'', w')
           else (Inr p, w'\<lparr>fs := AList.update p (File []) (fs w')\<rparr>)))"

text \<open>
  \<^verbatim>\<open>io.Copy(dst, src)\<close> writes the bytes of the source into the destination as it
  reads them. A fault leaves in the destination what had been written.
\<close>

definition Copy :: "path \<Rightarrow> path \<Rightarrow> world \<Rightarrow> (string + nat) \<times> world" where
  "Copy dst src w =
     (case syscall (CopyEv dst src) w of
        (Some f, w') \<Rightarrow>
          (case map_of (fs w') src of
             Some (File c) \<Rightarrow>
               (Inl (reason f), w'\<lparr>fs := AList.update dst (File (take (written f) c)) (fs w')\<rparr>)
           | _ \<Rightarrow> (Inl (reason f), w'))
      | (None, w') \<Rightarrow>
          (case map_of (fs w') src of
             Some (File c) \<Rightarrow> (Inr (length c), w'\<lparr>fs := AList.update dst (File c) (fs w')\<rparr>)
           | _ \<Rightarrow> (Inl ''is a directory'', w')))"

text \<open>
  \<^verbatim>\<open>os.MkdirTemp(dir, pattern)\<close> appends a random suffix to the pattern and tries
  again while the name is taken.
\<close>

definition MkdirTemp :: "path \<Rightarrow> string \<Rightarrow> world \<Rightarrow> (string + path) \<times> world" where
  "MkdirTemp dir pattern w =
     (case syscall (MkdirTempEv dir pattern) w of
        (Some f, w') \<Rightarrow> (Inl (reason f), w')
      | (None, w') \<Rightarrow>
          (if \<not> is_dir (fs w') dir then (Inl ''no such file or directory'', w')
           else (case dropWhile (\<lambda>r. map_of (fs w') (dir @ [pattern @ r]) \<noteq> None) (suffixes w') of
                   [] \<Rightarrow> (Inl ''file exists'', w'\<lparr>suffixes := []\<rparr>)
                 | r # rs \<Rightarrow>
                     (Inr (dir @ [pattern @ r]),
                      w'\<lparr>suffixes := rs,
                         fs := AList.update (dir @ [pattern @ r]) Directory (fs w')\<rparr>))))"

text \<open>\<^verbatim>\<open>os.Mkdir\<close>; the permission bits are not modelled (the schedule stands for them).\<close>

definition Mkdir :: "path \<Rightarrow> world \<Rightarrow> string option \<times> world" where
  "Mkdir p w =
     (case syscall (MkdirEv p) w of
        (Some f, w') \<Rightarrow> (Some (reason f), w')
      | (None, w') \<Rightarrow>
          (if p = [] \<or> map_of (fs w') p \<noteq> None then (Some ''file exists'', w')
           else if \<not> is_dir (fs w') (butlast p) then (Some ''no such file or directory'', w')
           else (None, w'\<lparr>fs := AList.update p Directory (fs w')\<rparr>)))"

text \<open>
  \<^verbatim>\<open>os.RemoveAll\<close> removes the path and everything below it, and returns nil when
  the path does not exist. A fault leaves the tree as it is.
\<close>

definition below :: "path \<Rightarrow> path \<Rightarrow> bool" where
  "below dir p = prefix dir p"

definition RemoveAll :: "path \<Rightarrow> world \<Rightarrow> string option \<times> world" where
  "RemoveAll p w =
     (case syscall (RemoveAllEv p) w of
        (flt, w') \<Rightarrow>
          (if \<not> (\<exists>q \<in> fst ` set (fs w'). below p q) then (None, w')
           else (case flt of
                   Some f \<Rightarrow> (Some (reason f), w')
                 | None \<Rightarrow> (None, w'\<lparr>fs := filter (\<lambda>(q, _). \<not> below p q) (fs w')\<rparr>))))"

definition Getwd :: "world \<Rightarrow> (string + path) \<times> world" where
  "Getwd w =
     (case syscall GetwdEv w of
        (Some f, w') \<Rightarrow> (Inl (reason f), w')
      | (None, w') \<Rightarrow> (Inr (workdir w'), w'))"

text \<open>Package os/exec: a command is a program name and its arguments.\<close>

datatype cmd = Command string "string list"

definition Pipe :: "world \<Rightarrow> string option \<times> world" where
  "Pipe w = (case syscall PipeEv w of (Some f, w') \<Rightarrow> (Some (reason f), w') | (None, w') \<Rightarrow> (None, w'))"

text \<open>Once started, the program runs: what it does to the file system is done.\<close>

fun Start :: "cmd \<Rightarrow> world \<Rightarrow> (string + process) \<times> world" where
  "Start (Command name args) w =
     (case syscall (StartEv name args) w of
        (Some f, w') \<Rightarrow> (Inl (reason f), w')
      | (None, w') \<Rightarrow>
          (let p = programs w' name args (fs w') in (Inr p, w'\<lparr>fs := leaves p\<rparr>)))"

definition ReadAll :: "string \<Rightarrow> world \<Rightarrow> (string + string) \<times> world" where
  "ReadAll stream w =
     (case syscall ReadAllEv w of
        (Some f, w') \<Rightarrow> (Inl (reason f), w')
      | (None, w') \<Rightarrow> (Inr stream, w'))"

definition Wait :: "process \<Rightarrow> world \<Rightarrow> string option \<times> world" where
  "Wait p w =
     (case syscall WaitEv w of
        (Some f, w') \<Rightarrow> (Some (reason f), w')
      | (None, w') \<Rightarrow> (status p, w'))"

text \<open>\<^verbatim>\<open>Cmd.Run\<close> starts the command and waits for it.\<close>

definition Cmd_Run :: "cmd \<Rightarrow> world \<Rightarrow> string option \<times> world" where
  "Cmd_Run c w =
     (case Start c w of
        (Inl e, w') \<Rightarrow> (Some e, w')
      | (Inr p, w') \<Rightarrow> Wait p w')"

section \<open>util.go: the stages\<close>

text \<open>
  The errors the stages return, one constructor for each place an error is made, with
  the text of the underlying error; \<open>Error\<close> is the message \<^verbatim>\<open>err.Error()\<close> gives.
\<close>

datatype error =
    CloneFailed string
  | ReadServiceDirFailed string
  | OpenProtoFailed string
  | CreateProtoFailed string
  | CopyProtoFailed string
  | NoCommand
  | PipeOutputFailed string
  | PipeErrorFailed string
  | StartFailed string
  | ReadOutputFailed string
  | ReadErrorFailed string
  | GeneratorFailed string
  | GetwdFailed string
  | ReadProtoDirFailed string
  | OpenGeneratedFailed string
  | CreateGeneratedFailed string
  | CopyGeneratedFailed string

fun Error :: "error \<Rightarrow> string" where
  "Error (CloneFailed e) = ''failed to clone service: '' @ e"
| "Error (ReadServiceDirFailed e) = ''failed to read service protobuf directory: '' @ e"
| "Error (OpenProtoFailed e) = ''cannot open source protobuf file: '' @ e"
| "Error (CreateProtoFailed e) = ''cannot create protobuf file: '' @ e"
| "Error (CopyProtoFailed e) = ''cannot copy protobuf file: '' @ e"
| "Error NoCommand = ''no command has been implemented for this language''"
| "Error (PipeOutputFailed e) = ''failed to pipe command output: '' @ e"
| "Error (PipeErrorFailed e) = ''failed to pipe command error output: '' @ e"
| "Error (StartFailed e) = ''failed to start client generator: '' @ e"
| "Error (ReadOutputFailed e) = ''failed to read output from command: '' @ e"
| "Error (ReadErrorFailed e) = ''failed to read error from command: '' @ e"
| "Error (GeneratorFailed e) = ''failed to run generator command: '' @ e"
| "Error (GetwdFailed e) = ''cannot locate current working directory: '' @ e"
| "Error (ReadProtoDirFailed e) = ''failed to read protobuf directory: '' @ e"
| "Error (OpenGeneratedFailed e) = ''failed to open generated file: '' @ e"
| "Error (CreateGeneratedFailed e) = ''failed to create generated file in output: '' @ e"
| "Error (CopyGeneratedFailed e) = ''failed to copy generated file to output: '' @ e"

text \<open>
  \<open>CleanUpDirectories\<close> returns nothing: either it returns, or \<^verbatim>\<open>log.Fatalf\<close>
  prints the message and ends the process with status 1 (\<open>Some\<close> of the message).
\<close>

definition CleanUpDirectories :: "path \<Rightarrow> world \<Rightarrow> string option \<times> world" where
  "CleanUpDirectories dir w =
     (case RemoveAll dir w of
        (Some e, w') \<Rightarrow>
          (Some (''Error: Could not remove directory '' @ [CHR 0x27] @ path_string dir
                 @ [CHR 0x27] @ '': '' @ e), w')
      | (None, w') \<Rightarrow> (None, w'))"

definition CloneService :: "string \<Rightarrow> path \<Rightarrow> world \<Rightarrow> (error + path) \<times> world" where
  "CloneService service dir w =
     (let src = Join dir [service] in
      case Cmd_Run (Command ''git''
             [''clone'', ''git@github.com:asmahood/'' @ service @ ''.git'', path_string src]) w of
        (Some e, w') \<Rightarrow> (Inl (CloneFailed e), w')
      | (None, w') \<Rightarrow> (Inr src, w'))"

text \<open>
  The loop of \<open>CopyProtobuf\<close> over the entries read. The two deferred
  \<^verbatim>\<open>Close\<close> calls run when the function returns and their results are dropped;
  the bytes are in the file when \<^verbatim>\<open>io.Copy\<close> returns.
\<close>

fun CopyProtobuf_loop ::
  "string \<Rightarrow> path \<Rightarrow> path \<Rightarrow> string list \<Rightarrow> world \<Rightarrow> error option \<times> world" where
  "CopyProtobuf_loop service serviceProtoDir protoDir [] w = (None, w)"
| "CopyProtobuf_loop service serviceProtoDir protoDir (f # files) w =
     (if Ext f \<noteq> ''.proto'' then CopyProtobuf_loop service serviceProtoDir protoDir files w
      else
        (case Open (Join serviceProtoDir [f]) w of
           (Inl e, w1) \<Rightarrow> (Some (OpenProtoFailed e), w1)
         | (Inr src, w1) \<Rightarrow>
             (case Create (Join protoDir [service @ ''.proto'']) w1 of
                (Inl e, w2) \<Rightarrow> (Some (CreateProtoFailed e), w2)
              | (Inr dst, w2) \<Rightarrow>
                  (case Copy dst src w2 of
                     (Inl e, w3) \<Rightarrow> (Some (CopyProtoFailed e), w3)
                   | (Inr _, w3) \<Rightarrow>
                       CopyProtobuf_loop service serviceProtoDir protoDir files w3))))"

definition CopyProtobuf ::
  "string \<Rightarrow> path \<Rightarrow> path \<Rightarrow> bool \<Rightarrow> world \<Rightarrow> error option \<times> world" where
  "CopyProtobuf service serviceDir protoDir private w =
     (let serviceProtoDir =
            (if private then Join serviceDir [''proto'', ''private'']
             else Join serviceDir [''proto'', ''public''])
      in case ReadDir serviceProtoDir w of
           (Inl e, w') \<Rightarrow> (Some (ReadServiceDirFailed e), w')
         | (Inr files, w') \<Rightarrow> CopyProtobuf_loop service serviceProtoDir protoDir files w')"

definition goGenerateCmd :: "string \<Rightarrow> path \<Rightarrow> cmd" where
  "goGenerateCmd service dir = Command ''protoc''
     [''--twirp_out=paths=source_relative:'' @ path_string dir,
      ''--go_out=paths=source_relative:'' @ path_string dir,
      ''--proto_path='' @ path_string dir,
      path_string (Join dir [service @ ''.proto''])]"

definition rubyGenerateCmd :: "string \<Rightarrow> path \<Rightarrow> cmd" where
  "rubyGenerateCmd service dir = Command ''protoc''
     [''--proto_path='' @ path_string dir,
      ''--twirp_ruby_out='' @ path_string dir,
      ''--ruby_out='' @ path_string dir,
      path_string (Join dir [service @ ''.proto''])]"

definition pythonGenerateCmd :: "string \<Rightarrow> path \<Rightarrow> cmd" where
  "pythonGenerateCmd service dir = Command ''protoc''
     [''--proto_path='' @ path_string dir,
      ''--twirpy_out='' @ path_string dir,
      ''--python_out='' @ path_string dir,
      path_string (Join dir [service @ ''.proto''])]"

definition javascriptGenerateCmd :: "string \<Rightarrow> path \<Rightarrow> cmd" where
  "javascriptGenerateCmd service dir = Command ''protoc''
     [''--proto_path='' @ path_string dir,
      ''--twirp_js_out='' @ path_string dir,
      ''--js_out=import_style=commonjs,binary:'' @ path_string dir,
      path_string (Join dir [service @ ''.proto''])]"

text \<open>The \<^verbatim>\<open>switch\<close> of \<open>GenerateCode\<close>: the command, or none in the default case.\<close>

definition protocCmd :: "string \<Rightarrow> string \<Rightarrow> path \<Rightarrow> cmd option" where
  "protocCmd language service dir =
     (if language = LanguageGo then Some (goGenerateCmd service dir)
      else if language = LanguageRuby then Some (rubyGenerateCmd service dir)
      else if language = LanguagePython then Some (pythonGenerateCmd service dir)
      else if language = LanguageJavascript then Some (javascriptGenerateCmd service dir)
      else None)"

definition GenerateCode :: "string \<Rightarrow> string \<Rightarrow> path \<Rightarrow> world \<Rightarrow> error option \<times> world" where
  "GenerateCode language service dir w =
     (case protocCmd language service dir of
        None \<Rightarrow> (Some NoCommand, w)
      | Some c \<Rightarrow>
          (case Pipe w of
             (Some e, w1) \<Rightarrow> (Some (PipeOutputFailed e), w1)
           | (None, w1) \<Rightarrow>
          (case Pipe w1 of
             (Some e, w2) \<Rightarrow> (Some (PipeErrorFailed e), w2)
           | (None, w2) \<Rightarrow>
          (case Start c w2 of
             (Inl e, w3) \<Rightarrow> (Some (StartFailed e), w3)
           | (Inr p, w3) \<Rightarrow>
          (case ReadAll (stdout p) w3 of
             (Inl e, w4) \<Rightarrow> (Some (ReadOutputFailed e), w4)
           | (Inr out, w4) \<Rightarrow>
          (let w5 = (if length out > 0
                     then Printf ([CHR 0x0A, CHR 0x0A] @ out @ [CHR 0x0A, CHR 0x0A]) w4
                     else w4)
           in
          (case ReadAll (stderr p) w5 of
             (Inl e, w6) \<Rightarrow> (Some (ReadErrorFailed e), w6)
           | (Inr errOut, w6) \<Rightarrow>
          (let w7 = (if length errOut > 0
                     then Printf (''Generator encountered error:'' @ [CHR 0x0A, CHR 0x0A]
                                  @ errOut @ [CHR 0x0A]) w6
                     else w6)
           in
          (case Wait p w7 of
             (Some e, w8) \<Rightarrow> (Some (GeneratorFailed e), w8)
           | (None, w8) \<Rightarrow> (None, w8))))))))))"

fun CopyGeneratedFiles_loop ::
  "path \<Rightarrow> path \<Rightarrow> string \<Rightarrow> string list \<Rightarrow> world \<Rightarrow> error option \<times> world" where
  "CopyGeneratedFiles_loop cwd protoDir outputPath [] w = (None, w)"
| "CopyGeneratedFiles_loop cwd protoDir outputPath (f # files) w =
     (if Ext f = ''.proto'' then CopyGeneratedFiles_loop cwd protoDir outputPath files w
      else
        (case Open (Join protoDir [f]) w of
           (Inl e, w1) \<Rightarrow> (Some (OpenGeneratedFailed e), w1)
         | (Inr src, w1) \<Rightarrow>
             (case Create (Join cwd [outputPath, f]) w1 of
                (Inl e, w2) \<Rightarrow> (Some (CreateGeneratedFailed e), w2)
              | (Inr dst, w2) \<Rightarrow>
                  (case Copy dst src w2 of
                     (Inl e, w3) \<Rightarrow> (Some (CopyGeneratedFailed e), w3)
                   | (Inr _, w3) \<Rightarrow>
                       CopyGeneratedFiles_loop cwd protoDir outputPath files w3))))"

definition CopyGeneratedFiles :: "path \<Rightarrow> string \<Rightarrow> world \<Rightarrow> error option \<times> world" where
  "CopyGeneratedFiles protoDir outputPath w =
     (case Getwd w of
        (Inl e, w1) \<Rightarrow> (Some (GetwdFailed e), w1)
      | (Inr cwd, w1) \<Rightarrow>
          (case ReadDir protoDir w1 of
             (Inl e, w2) \<Rightarrow> (Some (ReadProtoDirFailed e), w2)
           | (Inr files, w2) \<Rightarrow> CopyGeneratedFiles_loop cwd protoDir outputPath files w2))"

section \<open>cmd/root.go: the command\<close>

text \<open>The four flags the command reads.\<close>

record flags =
  language :: string
  service :: string
  private' :: bool
  outputPath :: string

text \<open>
  The command either returns (exit status 0) or ends in \<^verbatim>\<open>log.Fatalf\<close>, which
  prints the message and calls \<^verbatim>\<open>os.Exit(1)\<close>: deferred calls do not run then.
\<close>

datatype outcome = Returned | Fatal string

text \<open>
  The two lines every later stage has on its error path:
  \<^verbatim>\<open>util.CleanUpDirectories(tmpDir); log.Fatalf(...)\<close>.
\<close>

definition CleanUp_Fatalf :: "path \<Rightarrow> string \<Rightarrow> world \<Rightarrow> outcome \<times> world" where
  "CleanUp_Fatalf tmpDir msg w =
     (case CleanUpDirectories tmpDir w of
        (Some m, w') \<Rightarrow> (Fatal m, w')
      | (None, w') \<Rightarrow> (Fatal msg, w'))"

text \<open>
  The deferred \<^verbatim>\<open>util.CleanUpDirectories(tmpDir)\<close>, run when the function returns.
\<close>

definition deferred_CleanUp :: "path \<Rightarrow> world \<Rightarrow> outcome \<times> world" where
  "deferred_CleanUp tmpDir w =
     (case CleanUpDirectories tmpDir w of
        (Some m, w') \<Rightarrow> (Fatal m, w')
      | (None, w') \<Rightarrow> (Returned, w'))"

definition Run :: "flags \<Rightarrow> world \<Rightarrow> outcome \<times> world" where
  "Run fl w =
     (if \<not> IsValidLanguage (language fl) then
        (Fatal (''Error: Client code generation is not supported for '' @ [CHR 0x27]
                @ language fl @ [CHR 0x27, CHR 0x0A]), w)
      else if \<not> private' fl \<and> \<not> IsValidPublicService (service fl) then
        (Fatal (''Error: The service '' @ [CHR 0x27] @ service fl @ [CHR 0x27]
                @ '' does not have a public protobuf defined'' @ [CHR 0x0A]), w)
      else if private' fl \<and> \<not> IsValidPrivateService (service fl) then
        (Fatal (''Error: The service '' @ [CHR 0x27] @ service fl @ [CHR 0x27]
                @ '' does not have a private protobuf defined'' @ [CHR 0x0A]), w)
      else
        (case MkdirTemp (tempdir w) ''client-generation-'' w of
           (Inl e, w1) \<Rightarrow>
             (Fatal (''Error: Cannot create temporary directory: '' @ e @ [CHR 0x0A]), w1)
         | (Inr tmpDir, w1) \<Rightarrow>
        (let w2 = Printf (''Created temporary directory '' @ path_string tmpDir) w1;
             protoDir = Join tmpDir [''proto'']
         in
        (case Mkdir protoDir w2 of
           (Some e, w3) \<Rightarrow>
             CleanUp_Fatalf tmpDir (''Error: Cannot create protobuf directory: '' @ e) w3
         | (None, w3) \<Rightarrow>
        (case CloneService (service fl) tmpDir w3 of
           (Inl e, w4) \<Rightarrow> CleanUp_Fatalf tmpDir (''Error: '' @ Error e) w4
         | (Inr serviceDir, w4) \<Rightarrow>
        (case CopyProtobuf (service fl) serviceDir protoDir (private' fl) w4 of
           (Some e, w5) \<Rightarrow> CleanUp_Fatalf tmpDir (''Error: '' @ Error e) w5
         | (None, w5) \<Rightarrow>
        (case GenerateCode (language fl) (service fl) protoDir w5 of
           (Some e, w6) \<Rightarrow> CleanUp_Fatalf tmpDir (''Error: '' @ Error e) w6
         | (None, w6) \<Rightarrow>
        (case CopyGeneratedFiles protoDir (outputPath fl) w6 of
           (Some e, w7) \<Rightarrow> CleanUp_Fatalf tmpDir (''Error: '' @ Error e) w7
         | (None, w7) \<Rightarrow> deferred_CleanUp tmpDir w7))))))))"

section \<open>Notions used in the statements\<close>

text \<open>
  \<open>grows w w'\<close>: the world \<open>w'\<close> comes after \<open>w\<close>, and no call made in
  between is a removal.
\<close>

definition grows :: "world \<Rightarrow> world \<Rightarrow> bool" where
  "grows w w' = (\<exists>es. events w' = events w @ es \<and> (\<forall>d. RemoveAllEv d \<notin> set es))"


text \<open>\<open>fault_free w\<close>: the operating system answers no coming call with a fault.\<close>

definition fault_free :: "world \<Rightarrow> bool" where
  "fault_free w = (\<forall>x \<in> set (schedule w). x = None)"

section \<open>A run to evaluate\<close>

text \<open>
  A small world: the temporary area, a working directory with an output directory, a
  \<^verbatim>\<open>git\<close> that clones a service with a definition file and a README, a
  \<^verbatim>\<open>protoc\<close> that writes one generated file beside its input.
\<close>

definition demo_fs :: filesystem where
  "demo_fs = [([''tmp''], Directory), ([''work''], Directory), ([''work'', ''out''], Directory)]"

definition demo_programs :: "string \<Rightarrow> string list \<Rightarrow> filesystem \<Rightarrow> process" where
  "demo_programs name args t =
     (if name = ''git'' then
        \<lparr>stdout = [], stderr = [], status = None,
         leaves = t @
           [([''tmp'', ''client-generation-1'', ''catalog''], Directory),
            ([''tmp'', ''client-generation-1'', ''catalog'', ''proto''], Directory),
            ([''tmp'', ''client-generation-1'', ''catalog'', ''proto'', ''public''], Directory),
            ([''tmp'', ''client-generation-1'', ''catalog'', ''proto'', ''public'', ''README.md''],
              File ''docs''),
            ([''tmp'', ''client-generation-1'', ''catalog'', ''proto'', ''public'', ''catalog.proto''],
              File ''syntax'')]\<rparr>
      else
        \<lparr>stdout = ''ok'', stderr = [], status = None,
         leaves = t @
           [([''tmp'', ''client-generation-1'', ''proto'', ''catalog.pb.go''],
              File ''package catalog'')]\<rparr>)"

definition demo_world :: world where
  "demo_world = \<lparr>fs = demo_fs, schedule = [], events = [], logs = [], tempdir = [''tmp''],
     workdir = [''work''], suffixes = [''1''], programs = demo_programs\<rparr>"

definition demo_flags :: flags where
  "demo_flags = \<lparr>language = ''golang'', service = ''catalog'', private' = False,
     outputPath = ''out''\<rparr>"



text \<open>
  The same world with a disk that fills up: the eighth call (the copy of the definition
  file) fails after three bytes.
\<close>

definition demo_faulty :: world where
  "demo_faulty = demo_world\<lparr>schedule :=
     replicate 7 None @ [Some (Fault ''no space left on device'' 3)]\<rparr>"

section \<open>A source tree to extract from\<close>

text \<open>
  A cloned service with two definition files and a README in \<^verbatim>\<open>proto/public\<close>, only
  a text file in \<^verbatim>\<open>proto/private\<close>, and an empty staging directory.
\<close>

definition stage_world :: world where
  "stage_world = \<lparr>fs =
       [([''src''], Directory), ([''src'', ''proto''], Directory),
        ([''src'', ''proto'', ''public''], Directory),
        ([''src'', ''proto'', ''public'', ''b.proto''], File ''second''),
        ([''src'', ''proto'', ''public'', ''README.md''], File ''docs''),
        ([''src'', ''proto'', ''public'', ''a.proto''], File ''first''),
        ([''src'', ''proto'', ''private''], Directory),
        ([''src'', ''proto'', ''private'', ''notes.txt''], File ''todo''),
        ([''stage''], Directory)],
     schedule = [], events = [], logs = [], tempdir = [''tmp''], workdir = [''work''],
     suffixes = [], programs = demo_programs\<rparr>"

text \<open>The same with a disk that fills up three bytes into the first copy.\<close>

definition stage_short_disk :: world where
  "stage_short_disk = stage_world\<lparr>schedule :=
     [None, None, None, Some (Fault ''no space left on device'' 3)]\<rparr>"

text \<open>The same with a second definition file that cannot be opened.\<close>

definition stage_locked :: world where
  "stage_locked = stage_world\<lparr>schedule :=
     [None, None, None, None, Some (Fault ''permission denied'' 0)]\<rparr>"


section \<open>A staging directory to collect from\<close>


section \<open>Paths and extensions\<close>

lemmas Language_defs =
  LanguageGo_def LanguageRuby_def LanguagePython_def LanguageJava_def LanguageJavascript_def

lemmas Service_defs =
  ServiceAudit_def ServiceAuthorization_def ServiceCatalog_def ServiceCategory_def
  ServiceDataspec_def ServiceExports_def ServiceGrants_def ServiceJabba_def
  ServiceOrganizations_def ServiceParser_def ServiceQuery_def ServiceReferences_def
  ServiceSearch_def ServiceSources_def ServiceTaskrunner_def ServiceUploads_def
  ServiceWarehouses_def


lemma split_sep_ne: "split_sep s \<noteq> []"
  by (induction s) (auto split: list.splits)


lemma Join_Nil: "Join d [] = d"
  by (simp add: Join_def)




lemma ext_scan_shape:
  "ext_scan r acc = [] \<or> (\<exists>r1 r2. r = r1 @ CHR ''.'' # r2 \<and> ext_scan r acc = CHR ''.'' # rev r1 @ acc)"
proof (induction r acc rule: ext_scan.induct)
  case (1 acc)
  then show ?case by simp
next
  case (2 c cs acc)
  show ?case
  proof (cases "c = CHR ''/''")
    case True
    then show ?thesis by simp
  next
    case False
    note nsep = this
    show ?thesis
    proof (cases "c = CHR ''.''")
      case True
      then have "c # cs = [] @ CHR ''.'' # cs \<and> ext_scan (c # cs) acc = CHR ''.'' # rev [] @ acc"
        by simp
      then show ?thesis by blast
    next
      case False
      with nsep 2 have "ext_scan cs (c # acc) = [] \<or>
        (\<exists>r1 r2. cs = r1 @ CHR ''.'' # r2 \<and> ext_scan cs (c # acc) = CHR ''.'' # rev r1 @ c # acc)"
        by simp
      then show ?thesis
      proof
        assume "ext_scan cs (c # acc) = []"
        with False nsep show ?thesis by simp
      next
        assume "\<exists>r1 r2. cs = r1 @ CHR ''.'' # r2 \<and> ext_scan cs (c # acc) = CHR ''.'' # rev r1 @ c # acc"
        then obtain r1 r2 where h: "cs = r1 @ CHR ''.'' # r2"
          "ext_scan cs (c # acc) = CHR ''.'' # rev r1 @ c # acc" by blast
        then have "c # cs = (c # r1) @ CHR ''.'' # r2 \<and> ext_scan (c # cs) acc = CHR ''.'' # rev (c # r1) @ acc"
          using False nsep by simp
        then show ?thesis by blast
      qed
    qed
  qed
qed

lemma Ext_proto_iff: "Ext n = ''.proto'' \<longleftrightarrow> suffix ''.proto'' n"
proof
  assume e: "Ext n = ''.proto''"
  from ext_scan_shape [of "rev n" "[]"] e obtain r1 r2 where
    h: "rev n = r1 @ CHR ''.'' # r2" "ext_scan (rev n) [] = CHR ''.'' # rev r1 @ []"
    by (auto simp: Ext_def)
  from h(2) e have "rev r1 = ''proto''" by (simp add: Ext_def)
  moreover from h(1) have "n = rev r2 @ CHR ''.'' # rev r1"
    by (metis rev_rev_ident rev_append rev.simps(2) append.assoc append_Cons append_Nil)
  ultimately have "n = rev r2 @ ''.proto''" by simp
  then show "suffix ''.proto'' n" by (metis suffixI)
next
  assume "suffix ''.proto'' n"
  then obtain s where "n = s @ ''.proto''" by (auto simp: suffix_def)
  then show "Ext n = ''.proto''" by (simp add: Ext_def)
qed


section \<open>The calls a stage makes\<close>

lemma grows_refl: "grows w w"
  by (simp add: grows_def)

lemma grows_trans: "grows w w1 \<Longrightarrow> grows w1 w2 \<Longrightarrow> grows w w2"
  by (fastforce simp: grows_def)

lemma syscall_events: "syscall ev w = (r, w') \<Longrightarrow> events w' = events w @ [ev]"
  by (auto simp: syscall_def)

lemma syscall_fs: "syscall ev w = (r, w') \<Longrightarrow> fs w' = fs w"
  by (auto simp: syscall_def)

lemma syscall_grows: "syscall ev w = (r, w') \<Longrightarrow> (\<forall>d. ev \<noteq> RemoveAllEv d) \<Longrightarrow> grows w w'"
  by (auto simp: syscall_def grows_def)

lemma Printf_events: "events (Printf s w) = events w"
  by (simp add: Printf_def)

lemma Printf_fs: "fs (Printf s w) = fs w"
  by (simp add: Printf_def)

lemma ReadDir_events: "ReadDir d w = (r, w') \<Longrightarrow> events w' = events w @ [ReadDirEv d]"
  by (auto simp: ReadDir_def dest: syscall_events split: prod.splits option.splits node.splits)

lemma Open_events: "Open p w = (r, w') \<Longrightarrow> events w' = events w @ [OpenEv p]"
  by (auto simp: Open_def dest: syscall_events split: prod.splits option.splits)

lemma Create_events: "Create p w = (r, w') \<Longrightarrow> events w' = events w @ [CreateEv p]"
  by (auto simp: Create_def dest: syscall_events split: prod.splits option.splits if_splits)

lemma Copy_events: "Copy d s w = (r, w') \<Longrightarrow> events w' = events w @ [CopyEv d s]"
  by (auto simp: Copy_def dest: syscall_events split: prod.splits option.splits node.splits)

lemma MkdirTemp_events:
  "MkdirTemp d pat w = (r, w') \<Longrightarrow> events w' = events w @ [MkdirTempEv d pat]"
  by (auto simp: MkdirTemp_def dest: syscall_events split: prod.splits option.splits if_splits list.splits)

lemma Mkdir_events: "Mkdir p w = (r, w') \<Longrightarrow> events w' = events w @ [MkdirEv p]"
  by (auto simp: Mkdir_def dest: syscall_events split: prod.splits option.splits if_splits)

lemma RemoveAll_events: "RemoveAll p w = (r, w') \<Longrightarrow> events w' = events w @ [RemoveAllEv p]"
  by (auto simp: RemoveAll_def dest: syscall_events split: prod.splits option.splits if_splits)

lemma Getwd_events: "Getwd w = (r, w') \<Longrightarrow> events w' = events w @ [GetwdEv]"
  by (auto simp: Getwd_def dest: syscall_events split: prod.splits option.splits)

lemma Pipe_events: "Pipe w = (r, w') \<Longrightarrow> events w' = events w @ [PipeEv]"
  by (auto simp: Pipe_def dest: syscall_events split: prod.splits option.splits)

lemma Start_events:
  "Start (Command name args) w = (r, w') \<Longrightarrow> events w' = events w @ [StartEv name args]"
  by (auto simp: Let_def dest: syscall_events split: prod.splits option.splits)

lemma ReadAll_events: "ReadAll s w = (r, w') \<Longrightarrow> events w' = events w @ [ReadAllEv]"
  by (auto simp: ReadAll_def dest: syscall_events split: prod.splits option.splits)

lemma Wait_events: "Wait p w = (r, w') \<Longrightarrow> events w' = events w @ [WaitEv]"
  by (auto simp: Wait_def dest: syscall_events split: prod.splits option.splits)

lemma grows_step: "events w' = events w @ [ev] \<Longrightarrow> (\<forall>d. ev \<noteq> RemoveAllEv d) \<Longrightarrow> grows w w'"
  by (auto simp: grows_def)

lemma ReadDir_grows: "ReadDir d w = (r, w') \<Longrightarrow> grows w w'"
  by (rule grows_step [OF ReadDir_events]) auto
lemma Open_grows: "Open p w = (r, w') \<Longrightarrow> grows w w'"
  by (rule grows_step [OF Open_events]) auto
lemma Create_grows: "Create p w = (r, w') \<Longrightarrow> grows w w'"
  by (rule grows_step [OF Create_events]) auto
lemma Copy_grows: "Copy d s w = (r, w') \<Longrightarrow> grows w w'"
  by (rule grows_step [OF Copy_events]) auto
lemma Mkdir_grows: "Mkdir p w = (r, w') \<Longrightarrow> grows w w'"
  by (rule grows_step [OF Mkdir_events]) auto
lemma Getwd_grows: "Getwd w = (r, w') \<Longrightarrow> grows w w'"
  by (rule grows_step [OF Getwd_events]) auto
lemma Pipe_grows: "Pipe w = (r, w') \<Longrightarrow> grows w w'"
  by (rule grows_step [OF Pipe_events]) auto
lemma Start_grows: "Start c w = (r, w') \<Longrightarrow> grows w w'"
  by (cases c) (auto intro: grows_step [OF Start_events])
lemma ReadAll_grows: "ReadAll s w = (r, w') \<Longrightarrow> grows w w'"
  by (rule grows_step [OF ReadAll_events]) auto
lemma Wait_grows: "Wait p w = (r, w') \<Longrightarrow> grows w w'"
  by (rule grows_step [OF Wait_events]) auto
lemma Printf_grows: "grows w (Printf s w)"
  by (simp add: grows_def Printf_events)

lemma Cmd_Run_grows: "Cmd_Run c w = (r, w') \<Longrightarrow> grows w w'"
  by (auto simp: Cmd_Run_def split: prod.splits sum.splits
      intro: grows_trans [OF Start_grows Wait_grows] Start_grows)

lemma CloneService_grows: "CloneService s d w = (r, w') \<Longrightarrow> grows w w'"
  by (auto simp: CloneService_def Let_def split: prod.splits option.splits dest: Cmd_Run_grows)

lemma CopyProtobuf_loop_grows:
  "CopyProtobuf_loop s spd pd files w = (r, w') \<Longrightarrow> grows w w'"
proof (induction files arbitrary: w)
  case Nil
  then show ?case by (simp add: grows_refl)
next
  case (Cons f files)
  show ?case
  proof (cases "Ext f \<noteq> ''.proto''")
    case True
    with Cons show ?thesis by simp
  next
    case False
    obtain r1 w1 where o: "Open (Join spd [f]) w = (r1, w1)" by fastforce
    obtain r2 w2 where c: "Create (Join pd [s @ ''.proto'']) w1 = (r2, w2)" by fastforce
    have g1: "grows w w1" using o by (rule Open_grows)
    have g2: "grows w w2" using g1 Create_grows [OF c] by (rule grows_trans)
    show ?thesis
    proof (cases r1)
      case (Inl e)
      with False o Cons.prems g1 show ?thesis by auto
    next
      case (Inr src)
      note r1 = this
      show ?thesis
      proof (cases r2)
        case (Inl e)
        with False o c r1 Cons.prems g2 show ?thesis by auto
      next
        case (Inr dst)
        note r2 = this
        obtain r3 w3 where cp: "Copy dst src w2 = (r3, w3)" by fastforce
        have g3: "grows w w3" using g2 Copy_grows [OF cp] by (rule grows_trans)
        show ?thesis
        proof (cases r3)
          case (Inl e)
          with False o c cp r1 r2 Cons.prems g3 show ?thesis by auto
        next
          case (Inr n)
          with False o c cp r1 r2 Cons.prems
          have "CopyProtobuf_loop s spd pd files w3 = (r, w')" by simp
          then have "grows w3 w'" by (rule Cons.IH)
          with g3 show ?thesis by (rule grows_trans)
        qed
      qed
    qed
  qed
qed

lemma CopyProtobuf_grows: "CopyProtobuf s sd pd pr w = (r, w') \<Longrightarrow> grows w w'"
  by (auto simp: CopyProtobuf_def Let_def split: prod.splits sum.splits if_splits
      intro: grows_trans [OF ReadDir_grows CopyProtobuf_loop_grows] ReadDir_grows)


lemma CopyGeneratedFiles_loop_grows:
  "CopyGeneratedFiles_loop cw pd out files w = (r, w') \<Longrightarrow> grows w w'"
proof (induction files arbitrary: w)
  case Nil
  then show ?case by (simp add: grows_refl)
next
  case (Cons f files)
  show ?case
  proof (cases "Ext f = ''.proto''")
    case True
    with Cons show ?thesis by simp
  next
    case False
    obtain r1 w1 where o: "Open (Join pd [f]) w = (r1, w1)" by fastforce
    obtain r2 w2 where c: "Create (Join cw [out, f]) w1 = (r2, w2)" by fastforce
    have g1: "grows w w1" using o by (rule Open_grows)
    have g2: "grows w w2" using g1 Create_grows [OF c] by (rule grows_trans)
    show ?thesis
    proof (cases r1)
      case (Inl e)
      with False o Cons.prems g1 show ?thesis by auto
    next
      case (Inr src)
      note r1 = this
      show ?thesis
      proof (cases r2)
        case (Inl e)
        with False o c r1 Cons.prems g2 show ?thesis by auto
      next
        case (Inr dst)
        note r2 = this
        obtain r3 w3 where cp: "Copy dst src w2 = (r3, w3)" by fastforce
        have g3: "grows w w3" using g2 Copy_grows [OF cp] by (rule grows_trans)
        show ?thesis
        proof (cases r3)
          case (Inl e)
          with False o c cp r1 r2 Cons.prems g3 show ?thesis by auto
        next
          case (Inr n)
          with False o c cp r1 r2 Cons.prems
          have "CopyGeneratedFiles_loop cw pd out files w3 = (r, w')" by simp
          then have "grows w3 w'" by (rule Cons.IH)
          with g3 show ?thesis by (rule grows_trans)
        qed
      qed
    qed
  qed
qed

lemma CopyGeneratedFiles_grows: "CopyGeneratedFiles pd out w = (r, w') \<Longrightarrow> grows w w'"
  by (auto simp: CopyGeneratedFiles_def split: prod.splits sum.splits
      intro: grows_trans [OF Getwd_grows ReadDir_grows] Getwd_grows
        grows_trans [OF grows_trans [OF Getwd_grows ReadDir_grows] CopyGeneratedFiles_loop_grows])

lemma GenerateCode_grows:
  assumes "GenerateCode l s d w = (r, w')"
  shows "grows w w'"
proof (cases "protocCmd l s d")
  case None
  with assms show ?thesis by (simp add: GenerateCode_def grows_refl)
next
  case (Some c)
  obtain r1 w1 where p1: "Pipe w = (r1, w1)" by fastforce
  obtain r2 w2 where p2: "Pipe w1 = (r2, w2)" by fastforce
  obtain r3 w3 where st: "Start c w2 = (r3, w3)" by fastforce
  have g1: "grows w w1" using p1 by (rule Pipe_grows)
  have g2: "grows w w2" using g1 Pipe_grows [OF p2] by (rule grows_trans)
  have g3: "grows w w3" using g2 Start_grows [OF st] by (rule grows_trans)
  show ?thesis
  proof (cases r1)
    case (Some e)
    with assms \<open>protocCmd l s d = Some c\<close> p1 g1 show ?thesis by (simp add: GenerateCode_def)
  next
    case None
    note r1 = this
    show ?thesis
    proof (cases r2)
      case (Some e)
      with assms \<open>protocCmd l s d = Some c\<close> p1 p2 r1 g2 show ?thesis
        by (simp add: GenerateCode_def)
    next
      case None
      note r2 = this
      show ?thesis
      proof (cases r3)
        case (Inl e)
        with assms \<open>protocCmd l s d = Some c\<close> p1 p2 st r1 r2 g3 show ?thesis
          by (simp add: GenerateCode_def)
      next
        case (Inr p)
        note r3 = this
        obtain r4 w4 where ra: "ReadAll (stdout p) w3 = (r4, w4)" by fastforce
        have g4: "grows w w4" using g3 ReadAll_grows [OF ra] by (rule grows_trans)
        show ?thesis
        proof (cases r4)
          case (Inl e)
          with assms \<open>protocCmd l s d = Some c\<close> p1 p2 st ra r1 r2 r3 g4 show ?thesis
            by (simp add: GenerateCode_def)
        next
          case (Inr out)
          note r4 = this
          define w5 where "w5 = (if length out > 0
                     then Printf ([CHR 0x0A, CHR 0x0A] @ out @ [CHR 0x0A, CHR 0x0A]) w4
                     else w4)"
          have g5: "grows w w5"
            using g4 Printf_grows [of w4] by (auto simp: w5_def intro: grows_trans)
          obtain r6 w6 where rb: "ReadAll (stderr p) w5 = (r6, w6)" by fastforce
          have g6: "grows w w6" using g5 ReadAll_grows [OF rb] by (rule grows_trans)
          show ?thesis
          proof (cases r6)
            case (Inl e)
            with assms \<open>protocCmd l s d = Some c\<close> p1 p2 st ra rb r1 r2 r3 r4 g6 show ?thesis
              by (simp add: GenerateCode_def w5_def Let_def)
          next
            case (Inr errOut)
            note r6 = this
            define w7 where "w7 = (if length errOut > 0
                     then Printf (''Generator encountered error:'' @ [CHR 0x0A, CHR 0x0A]
                                  @ errOut @ [CHR 0x0A]) w6
                     else w6)"
            have g7: "grows w w7"
              using g6 Printf_grows [of w6] by (auto simp: w7_def intro: grows_trans)
            obtain r8 w8 where wt: "Wait p w7 = (r8, w8)" by fastforce
            have g8: "grows w w8" using g7 Wait_grows [OF wt] by (rule grows_trans)
            from assms \<open>protocCmd l s d = Some c\<close> p1 p2 st ra rb wt r1 r2 r3 r4 r6
            have "w' = w8"
              by (auto simp: GenerateCode_def w5_def w7_def Let_def split: option.splits)
            with g8 show ?thesis by simp
          qed
        qed
      qed
    qed
  qed
qed


lemma map_of_filter_keys:
  "map_of (filter (\<lambda>(q, _). P q) t) k = (if P k then map_of t k else None)"
  by (induction t) auto

lemma RemoveAll_None:
  assumes "RemoveAll p w = (None, w')"
  shows "\<forall>q \<in> fst ` set (fs w'). \<not> below p q"
    and "\<forall>q. \<not> below p q \<longrightarrow> map_of (fs w') q = map_of (fs w) q"
  using assms
  by (auto simp: RemoveAll_def syscall_def map_of_filter_keys
      split: prod.splits if_splits option.splits)


lemma CleanUpDirectories_cases:
  assumes "CleanUpDirectories d w = (r, w')"
  shows "(r = None \<and> (\<forall>q \<in> fst ` set (fs w'). \<not> below d q))
       \<or> (\<exists>e. r = Some (''Error: Could not remove directory '' @ [CHR 0x27] @ path_string d
                     @ [CHR 0x27] @ '': '' @ e))"
proof -
  obtain x w1 where ra: "RemoveAll d w = (x, w1)" by fastforce
  show ?thesis
  proof (cases x)
    case None
    with assms ra have "r = None" "w' = w1" by (simp_all add: CleanUpDirectories_def)
    with RemoveAll_None(1) [OF ra [unfolded None]] show ?thesis by simp
  next
    case (Some e)
    with assms ra have "r = Some (''Error: Could not remove directory '' @ [CHR 0x27]
        @ path_string d @ [CHR 0x27] @ '': '' @ e)"
      by (simp add: CleanUpDirectories_def)
    then show ?thesis by blast
  qed
qed

lemma CleanUpDirectories_events:
  "CleanUpDirectories d w = (r, w') \<Longrightarrow> events w' = events w @ [RemoveAllEv d]"
  by (auto simp: CleanUpDirectories_def split: prod.splits option.splits dest: RemoveAll_events)

lemma CleanUp_Fatalf_events:
  "CleanUp_Fatalf d m w = (r, w') \<Longrightarrow> events w' = events w @ [RemoveAllEv d]"
  by (auto simp: CleanUp_Fatalf_def split: prod.splits option.splits
      dest: CleanUpDirectories_events)

lemma deferred_CleanUp_events:
  "deferred_CleanUp d w = (r, w') \<Longrightarrow> events w' = events w @ [RemoveAllEv d]"
  by (auto simp: deferred_CleanUp_def split: prod.splits option.splits
      dest: CleanUpDirectories_events)

lemma ends_with_removal:
  "grows w1 w \<Longrightarrow> events w' = events w @ [RemoveAllEv d] \<Longrightarrow>
   \<exists>es. events w' = events w1 @ es @ [RemoveAllEv d] \<and> (\<forall>d'. RemoveAllEv d' \<notin> set es)"
  by (auto simp: grows_def)

lemma Run_in_workspace:
  assumes g: "IsValidLanguage (language fl)"
      "\<not> private' fl \<longrightarrow> IsValidPublicService (service fl)"
      "private' fl \<longrightarrow> IsValidPrivateService (service fl)"
    and mk: "MkdirTemp (tempdir w) ''client-generation-'' w = (Inr tmpDir, w1)"
    and run: "Run fl w = (out, w')"
  shows "(\<exists>es. events w' = events w1 @ es @ [RemoveAllEv tmpDir]
            \<and> (\<forall>d. RemoveAllEv d \<notin> set es))
       \<and> ((\<forall>q \<in> fst ` set (fs w'). \<not> below tmpDir q)
          \<or> (\<exists>e. out = Fatal (''Error: Could not remove directory '' @ [CHR 0x27]
                     @ path_string tmpDir @ [CHR 0x27] @ '': '' @ e)))"
    (is ?P)
proof -
  define protoDir where "protoDir = Join tmpDir [''proto'']"
  have fin: "?P" if gr: "grows w1 wa" and cf: "CleanUp_Fatalf tmpDir m wa = (out, w')" for wa m
  proof -
    obtain r where cu: "CleanUpDirectories tmpDir wa = (r, w')"
      and out: "out = (case r of Some m' \<Rightarrow> Fatal m' | None \<Rightarrow> Fatal m)"
      using cf by (auto simp: CleanUp_Fatalf_def split: prod.splits option.splits)
    from ends_with_removal [OF gr CleanUp_Fatalf_events [OF cf]]
      CleanUpDirectories_cases [OF cu] out
    show ?thesis by auto
  qed
  have fin': "?P" if gr: "grows w1 wa" and dc: "deferred_CleanUp tmpDir wa = (out, w')" for wa
  proof -
    obtain r where cu: "CleanUpDirectories tmpDir wa = (r, w')"
      and out: "out = (case r of Some m' \<Rightarrow> Fatal m' | None \<Rightarrow> Returned)"
      using dc by (auto simp: deferred_CleanUp_def split: prod.splits option.splits)
    from ends_with_removal [OF gr deferred_CleanUp_events [OF dc]]
      CleanUpDirectories_cases [OF cu] out
    show ?thesis by auto
  qed
  define k5 where "k5 = (\<lambda>w6.
        (case CopyGeneratedFiles protoDir (outputPath fl) w6 of
           (Some e, w7) \<Rightarrow> CleanUp_Fatalf tmpDir (''Error: '' @ Error e) w7
         | (None, w7) \<Rightarrow> deferred_CleanUp tmpDir w7))"
  define k4 where "k4 = (\<lambda>w5.
        (case GenerateCode (language fl) (service fl) protoDir w5 of
           (Some e, w6) \<Rightarrow> CleanUp_Fatalf tmpDir (''Error: '' @ Error e) w6
         | (None, w6) \<Rightarrow> k5 w6))"
  define k3 where "k3 = (\<lambda>serviceDir w4.
        (case CopyProtobuf (service fl) serviceDir protoDir (private' fl) w4 of
           (Some e, w5) \<Rightarrow> CleanUp_Fatalf tmpDir (''Error: '' @ Error e) w5
         | (None, w5) \<Rightarrow> k4 w5))"
  define k2 where "k2 = (\<lambda>w3.
        (case CloneService (service fl) tmpDir w3 of
           (Inl e, w4) \<Rightarrow> CleanUp_Fatalf tmpDir (''Error: '' @ Error e) w4
         | (Inr serviceDir, w4) \<Rightarrow> k3 serviceDir w4))"
  define k1 where "k1 = (\<lambda>w2.
        (case Mkdir protoDir w2 of
           (Some e, w3) \<Rightarrow>
             CleanUp_Fatalf tmpDir (''Error: Cannot create protobuf directory: '' @ e) w3
         | (None, w3) \<Rightarrow> k2 w3))"
  have s5: "?P" if gr: "grows w1 wa" and k: "k5 wa = (out, w')" for wa
  proof -
    obtain r wb where st: "CopyGeneratedFiles protoDir (outputPath fl) wa = (r, wb)"
      by fastforce
    have gb: "grows w1 wb" using gr CopyGeneratedFiles_grows [OF st] by (rule grows_trans)
    show ?thesis
    proof (cases r)
      case None
      with k st have "deferred_CleanUp tmpDir wb = (out, w')" by (simp add: k5_def)
      with gb show ?thesis by (rule fin')
    next
      case (Some e)
      with k st have "CleanUp_Fatalf tmpDir (''Error: '' @ Error e) wb = (out, w')"
        by (simp add: k5_def)
      with gb show ?thesis by (rule fin)
    qed
  qed
  have s4: "?P" if gr: "grows w1 wa" and k: "k4 wa = (out, w')" for wa
  proof -
    obtain r wb where st: "GenerateCode (language fl) (service fl) protoDir wa = (r, wb)"
      by fastforce
    have gb: "grows w1 wb" using gr GenerateCode_grows [OF st] by (rule grows_trans)
    show ?thesis
    proof (cases r)
      case None
      with k st have "k5 wb = (out, w')" by (simp add: k4_def)
      with gb show ?thesis by (rule s5)
    next
      case (Some e)
      with k st have "CleanUp_Fatalf tmpDir (''Error: '' @ Error e) wb = (out, w')"
        by (simp add: k4_def)
      with gb show ?thesis by (rule fin)
    qed
  qed
  have s3: "?P" if gr: "grows w1 wa" and k: "k3 sd wa = (out, w')" for sd wa
  proof -
    obtain r wb where st: "CopyProtobuf (service fl) sd protoDir (private' fl) wa = (r, wb)"
      by fastforce
    have gb: "grows w1 wb" using gr CopyProtobuf_grows [OF st] by (rule grows_trans)
    show ?thesis
    proof (cases r)
      case None
      with k st have "k4 wb = (out, w')" by (simp add: k3_def)
      with gb show ?thesis by (rule s4)
    next
      case (Some e)
      with k st have "CleanUp_Fatalf tmpDir (''Error: '' @ Error e) wb = (out, w')"
        by (simp add: k3_def)
      with gb show ?thesis by (rule fin)
    qed
  qed
  have s2: "?P" if gr: "grows w1 wa" and k: "k2 wa = (out, w')" for wa
  proof -
    obtain r wb where st: "CloneService (service fl) tmpDir wa = (r, wb)" by fastforce
    have gb: "grows w1 wb" using gr CloneService_grows [OF st] by (rule grows_trans)
    show ?thesis
    proof (cases r)
      case (Inr sd)
      with k st have "k3 sd wb = (out, w')" by (simp add: k2_def)
      with gb show ?thesis by (rule s3)
    next
      case (Inl e)
      with k st have "CleanUp_Fatalf tmpDir (''Error: '' @ Error e) wb = (out, w')"
        by (simp add: k2_def)
      with gb show ?thesis by (rule fin)
    qed
  qed
  have s1: "?P" if gr: "grows w1 wa" and k: "k1 wa = (out, w')" for wa
  proof -
    obtain r wb where st: "Mkdir protoDir wa = (r, wb)" by fastforce
    have gb: "grows w1 wb" using gr Mkdir_grows [OF st] by (rule grows_trans)
    show ?thesis
    proof (cases r)
      case None
      with k st have "k2 wb = (out, w')" by (simp add: k1_def)
      with gb show ?thesis by (rule s2)
    next
      case (Some e)
      with k st have "CleanUp_Fatalf tmpDir
          (''Error: Cannot create protobuf directory: '' @ e) wb = (out, w')"
        by (simp add: k1_def)
      with gb show ?thesis by (rule fin)
    qed
  qed
  have "Run fl w = k1 (Printf (''Created temporary directory '' @ path_string tmpDir) w1)"
    unfolding k1_def k2_def k3_def k4_def k5_def protoDir_def Run_def Let_def
    using g mk by (cases "private' fl") simp_all
  with run have "k1 (Printf (''Created temporary directory '' @ path_string tmpDir) w1)
      = (out, w')" by simp
  with Printf_grows show ?thesis by (rule s1)
qed

section \<open>What a stage does to the files\<close>

lemma Open_Inr: "Open p w = (Inr h, w') \<Longrightarrow> h = p \<and> fs w' = fs w"
  by (auto simp: Open_def dest: syscall_fs split: prod.splits option.splits)

lemma Open_fs: "Open p w = (r, w') \<Longrightarrow> fs w' = fs w"
  by (auto simp: Open_def dest: syscall_fs split: prod.splits option.splits)

lemma Create_Inr:
  "Create p w = (Inr h, w') \<Longrightarrow> h = p \<and> map_of (fs w') = (map_of (fs w))(p \<mapsto> File [])"
  by (auto simp: Create_def update_conv' dest: syscall_fs split: prod.splits option.splits if_splits)

lemma Create_Inl: "Create p w = (Inl e, w') \<Longrightarrow> fs w' = fs w"
  by (auto simp: Create_def dest: syscall_fs split: prod.splits option.splits if_splits)

lemma Copy_Inr:
  "Copy dst src w = (Inr n, w') \<Longrightarrow>
   \<exists>c. map_of (fs w) src = Some (File c) \<and> map_of (fs w') = (map_of (fs w))(dst \<mapsto> File c)"
  by (auto simp: Copy_def update_conv' dest: syscall_fs split: prod.splits option.splits node.splits)

lemma Copy_Inl:
  "Copy dst src w = (Inl e, w') \<Longrightarrow>
   fs w' = fs w \<or>
   (\<exists>c k. map_of (fs w) src = Some (File c) \<and> map_of (fs w') = (map_of (fs w))(dst \<mapsto> File (take k c)))"
  by (auto simp: Copy_def syscall_def update_conv' split: prod.splits option.splits node.splits
      list.splits)

lemma ReadDir_fs: "ReadDir d w = (r, w') \<Longrightarrow> fs w' = fs w"
  by (auto simp: ReadDir_def dest: syscall_fs split: prod.splits option.splits node.splits)

lemma ReadDir_Inr:
  "ReadDir d w = (Inr names, w') \<Longrightarrow> names = entries (fs w) d \<and> is_dir (fs w) d"
  by (auto simp: ReadDir_def is_dir_def dest: syscall_fs split: prod.splits option.splits node.splits)

text \<open>One round of the loop that went through: open, create, copy.\<close>

lemma copy_round:
  assumes o: "Open src w = (Inr h, w1)"
    and c: "Create dst w1 = (Inr h', w2)"
    and cp: "Copy h' h w2 = (Inr n, w3)"
  shows "\<exists>c. map_of (fs w3) = (map_of (fs w))(dst \<mapsto> File c)
            \<and> map_of (fs w3) src = Some (File c)
            \<and> (src \<noteq> dst \<longrightarrow> map_of (fs w) src = Some (File c))"
proof -
  from o have h: "h = src" and f1: "fs w1 = fs w" by (auto dest: Open_Inr)
  from c have h': "h' = dst" and f2: "map_of (fs w2) = (map_of (fs w1))(dst \<mapsto> File [])"
    by (auto dest: Create_Inr)
  from cp h h' obtain c where c: "map_of (fs w2) src = Some (File c)"
    and f3: "map_of (fs w3) = (map_of (fs w2))(dst \<mapsto> File c)"
    by (auto dest: Copy_Inr)
  have "map_of (fs w3) = (map_of (fs w))(dst \<mapsto> File c)" using f1 f2 f3 by simp
  moreover have "map_of (fs w3) src = Some (File c)" using f3 c by simp
  moreover have "src \<noteq> dst \<longrightarrow> map_of (fs w) src = Some (File c)"
    using c f2 f1 by (simp split: if_splits)
  ultimately show ?thesis by blast
qed

lemma CopyProtobuf_loop_ok:
  "CopyProtobuf_loop s spd pd files w = (None, w') \<Longrightarrow>
   (\<forall>p. p \<noteq> Join pd [s @ ''.proto''] \<longrightarrow> map_of (fs w') p = map_of (fs w) p) \<and>
   (filter (\<lambda>f. Ext f = ''.proto'') files = [] \<longrightarrow> fs w' = fs w) \<and>
   (filter (\<lambda>f. Ext f = ''.proto'') files \<noteq> [] \<longrightarrow>
      (\<exists>c. map_of (fs w') (Join pd [s @ ''.proto'']) = Some (File c) \<and>
           map_of (fs w') (Join spd [last (filter (\<lambda>f. Ext f = ''.proto'') files)]) = Some (File c)))"
proof (induction files arbitrary: w)
  case Nil
  then show ?case by simp
next
  case (Cons f files)
  let ?dst = "Join pd [s @ ''.proto'']"
  let ?q = "filter (\<lambda>f. Ext f = ''.proto'') files"
  show ?case
  proof (cases "Ext f = ''.proto''")
    case False
    with Cons.prems have "CopyProtobuf_loop s spd pd files w = (None, w')" by simp
    from Cons.IH [OF this] False show ?thesis by simp
  next
    case True
    obtain r1 w1 where o: "Open (Join spd [f]) w = (r1, w1)" by fastforce
    obtain r2 w2 where c: "Create ?dst w1 = (r2, w2)" by fastforce
    from Cons.prems True o obtain src where r1: "r1 = Inr src"
      by (cases r1) auto
    from Cons.prems True o c r1 obtain dst where r2: "r2 = Inr dst"
      by (cases r2) auto
    obtain r3 w3 where cp: "Copy dst src w2 = (r3, w3)" by fastforce
    from Cons.prems True o c cp r1 r2 obtain n where r3: "r3 = Inr n"
      by (cases r3) auto
    from Cons.prems True o c cp r1 r2 r3
    have rest: "CopyProtobuf_loop s spd pd files w3 = (None, w')" by simp
    from copy_round [OF o [unfolded r1] c [unfolded r2] cp [unfolded r3]]
    obtain cnt where m3: "map_of (fs w3) = (map_of (fs w))(?dst \<mapsto> File cnt)"
      and s3: "map_of (fs w3) (Join spd [f]) = Some (File cnt)" by blast
    note IH = Cons.IH [OF rest]
    have a: "\<forall>p. p \<noteq> ?dst \<longrightarrow> map_of (fs w') p = map_of (fs w) p"
      using IH m3 by simp
    have b: "\<exists>c. map_of (fs w') ?dst = Some (File c) \<and>
           map_of (fs w') (Join spd [last (f # ?q)]) = Some (File c)"
    proof (cases "?q = []")
      case True
      with IH have "fs w' = fs w3" by simp
      with m3 s3 True show ?thesis by simp
    next
      case False
      with IH show ?thesis by simp
    qed
    from a b True show ?thesis by simp
  qed
qed

section \<open>The command: rejected and accepted requests\<close>

lemma Run_rejected:
  assumes "\<not> IsValidLanguage (language fl)
     \<or> (\<not> private' fl \<and> \<not> IsValidPublicService (service fl))
     \<or> (private' fl \<and> \<not> IsValidPrivateService (service fl))"
  shows "\<exists>m. Run fl w = (Fatal m, w)"
  using assms by (auto simp: Run_def)

lemma Run_accepted_events:
  assumes g: "IsValidLanguage (language fl)"
      "\<not> private' fl \<longrightarrow> IsValidPublicService (service fl)"
      "private' fl \<longrightarrow> IsValidPrivateService (service fl)"
  shows "\<exists>es. events (snd (Run fl w))
           = events w @ MkdirTempEv (tempdir w) ''client-generation-'' # es"
proof -
  obtain r w1 where mk: "MkdirTemp (tempdir w) ''client-generation-'' w = (r, w1)"
    by fastforce
  then have e1: "events w1 = events w @ [MkdirTempEv (tempdir w) ''client-generation-'']"
    by (rule MkdirTemp_events)
  show ?thesis
  proof (cases r)
    case (Inl e)
    with g mk have "snd (Run fl w) = w1"
      by (cases "private' fl") (simp_all add: Run_def)
    with e1 show ?thesis by simp
  next
    case (Inr tmpDir)
    obtain out w' where run: "Run fl w = (out, w')" by fastforce
    from Run_in_workspace [OF g mk [unfolded Inr] run] e1 run show ?thesis by auto
  qed
qed

lemma Run_accepted_moves:
  assumes "IsValidLanguage (language fl)"
      "\<not> private' fl \<longrightarrow> IsValidPublicService (service fl)"
      "private' fl \<longrightarrow> IsValidPrivateService (service fl)"
  shows "Run fl w \<noteq> (x, w)"
proof
  assume "Run fl w = (x, w)"
  with Run_accepted_events [OF assms, of w] show False by simp
qed

section \<open>The validator\<close>

text \<open>
  Claim C3, amended. The language validator accepts exactly the five strings
  \<^verbatim>\<open>golang\<close>, \<^verbatim>\<open>ruby\<close>, \<^verbatim>\<open>python\<close>,
  \<^verbatim>\<open>javascript\<close> and \<^verbatim>\<open>java\<close>: the Go language is spelled
  \<^verbatim>\<open>golang\<close> (the constant \<open>LanguageGo\<close>, as the help text of the
  flag says), not \<^verbatim>\<open>go\<close>.
\<close>
theorem IsValidLanguage_iff:
  "IsValidLanguage lang \<longleftrightarrow> lang \<in> {''golang'', ''ruby'', ''python'', ''javascript'', ''java''}"
  by (auto simp: IsValidLanguage_def Language_defs)

text \<open>
  Claim C3 as stated fails at the string \<^verbatim>\<open>go\<close>: it is in the claim's list and the
  validator returns false for it.
\<close>

theorem IsValidLanguage_go_counterexample:
  "\<not> (IsValidLanguage ''go'' \<longleftrightarrow> ''go'' \<in> {''go'', ''ruby'', ''python'', ''javascript'', ''java''})"
  by (simp add: IsValidLanguage_def Language_defs)

section \<open>Languages without a command\<close>

text \<open>
  Claim C7. For every language outside \<^verbatim>\<open>golang\<close>, \<^verbatim>\<open>ruby\<close>,
  \<^verbatim>\<open>python\<close>, \<^verbatim>\<open>javascript\<close>, \<open>GenerateCode\<close> returns the error
  "no command has been implemented for this language" and leaves the world as it was: no
  pipe is made and no process started. \<^verbatim>\<open>java\<close> is such a language, and the
  validator accepts it.
\<close>
theorem GenerateCode_no_profile:
  "(lang \<notin> {''golang'', ''ruby'', ''python'', ''javascript''} \<longrightarrow>
      GenerateCode lang svc dir w = (Some NoCommand, w))
   \<and> IsValidLanguage ''java''
   \<and> GenerateCode ''java'' svc dir w = (Some NoCommand, w)
   \<and> Error NoCommand = ''no command has been implemented for this language''"
  by (simp add: GenerateCode_def protocCmd_def IsValidLanguage_def Language_defs)

text \<open>
  At \<^verbatim>\<open>rust\<close>; and the whole command with \<^verbatim>\<open>java\<close>: the run ends in
  that error, and the only process it ever starts is the clone.
\<close>

theorem GenerateCode_no_profile_witness:
  "''rust'' \<notin> {''golang'', ''ruby'', ''python'', ''javascript''}
   \<and> GenerateCode ''rust'' ''catalog'' [''stage''] demo_world = (Some NoCommand, demo_world)
   \<and> fst (Run (demo_flags\<lparr>language := ''java''\<rparr>) demo_world)
       = Fatal ''Error: no command has been implemented for this language''
   \<and> [e \<leftarrow> events (snd (Run (demo_flags\<lparr>language := ''java''\<rparr>) demo_world)).
         \<exists>n a. e = StartEv n a]
       = [StartEv ''git'' [''clone'', ''git@github.com:asmahood/catalog.git'',
            ''/tmp/client-generation-1/catalog'']]"
proof -
  have a: "''rust'' \<notin> {''golang'', ''ruby'', ''python'', ''javascript''}" by simp
  have b: "fst (Run (demo_flags\<lparr>language := ''java''\<rparr>) demo_world)
       = Fatal ''Error: no command has been implemented for this language''"
    by code_simp
  have c: "events (snd (Run (demo_flags\<lparr>language := ''java''\<rparr>) demo_world)) =
     [MkdirTempEv [''tmp''] ''client-generation-'',
      MkdirEv [''tmp'', ''client-generation-1'', ''proto''],
      StartEv ''git'' [''clone'', ''git@github.com:asmahood/catalog.git'',
            ''/tmp/client-generation-1/catalog''],
      WaitEv,
      ReadDirEv [''tmp'', ''client-generation-1'', ''catalog'', ''proto'', ''public''],
      OpenEv [''tmp'', ''client-generation-1'', ''catalog'', ''proto'', ''public'', ''catalog.proto''],
      CreateEv [''tmp'', ''client-generation-1'', ''proto'', ''catalog.proto''],
      CopyEv [''tmp'', ''client-generation-1'', ''proto'', ''catalog.proto'']
        [''tmp'', ''client-generation-1'', ''catalog'', ''proto'', ''public'', ''catalog.proto''],
      RemoveAllEv [''tmp'', ''client-generation-1'']]"
    by code_simp
  from GenerateCode_no_profile [of "''rust''" "''catalog''" "[''stage'']" demo_world] a b
  show ?thesis unfolding c by simp
qed

section \<open>The gates come first\<close>

text \<open>
  Claim C2. A request that fails one of the three gates (language; public definition when
  not private; private definition when private) ends in \<^verbatim>\<open>log.Fatalf\<close> with the
  world untouched: no call to the operating system has been made. Conversely a run that
  made any call passed all three gates, and the first call it made is the creation of the
  temporary directory: the clone and everything else come after it.
\<close>
theorem Run_rejects_before_any_call:
  "(\<not> IsValidLanguage (language fl)
     \<or> (\<not> private' fl \<and> \<not> IsValidPublicService (service fl))
     \<or> (private' fl \<and> \<not> IsValidPrivateService (service fl))
    \<longrightarrow> (\<exists>m. Run fl w = (Fatal m, w)))
   \<and> (events (snd (Run fl w)) \<noteq> events w \<longrightarrow>
        IsValidLanguage (language fl)
        \<and> (\<not> private' fl \<longrightarrow> IsValidPublicService (service fl))
        \<and> (private' fl \<longrightarrow> IsValidPrivateService (service fl))
        \<and> (\<exists>es. events (snd (Run fl w))
              = events w @ MkdirTempEv (tempdir w) ''client-generation-'' # es))"
proof (intro conjI impI)
  assume "\<not> IsValidLanguage (language fl)
     \<or> (\<not> private' fl \<and> \<not> IsValidPublicService (service fl))
     \<or> (private' fl \<and> \<not> IsValidPrivateService (service fl))"
  then show "\<exists>m. Run fl w = (Fatal m, w)" by (rule Run_rejected)
next
  assume moved: "events (snd (Run fl w)) \<noteq> events w"
  have "\<not> (\<not> IsValidLanguage (language fl)
     \<or> (\<not> private' fl \<and> \<not> IsValidPublicService (service fl))
     \<or> (private' fl \<and> \<not> IsValidPrivateService (service fl)))"
  proof
    assume "\<not> IsValidLanguage (language fl)
     \<or> (\<not> private' fl \<and> \<not> IsValidPublicService (service fl))
     \<or> (private' fl \<and> \<not> IsValidPrivateService (service fl))"
    then obtain m where "Run fl w = (Fatal m, w)" using Run_rejected by blast
    with moved show False by simp
  qed
  then have g: "IsValidLanguage (language fl)"
    "\<not> private' fl \<longrightarrow> IsValidPublicService (service fl)"
    "private' fl \<longrightarrow> IsValidPrivateService (service fl)"
    by blast+
  from g show "IsValidLanguage (language fl)"
    and "\<not> private' fl \<Longrightarrow> IsValidPublicService (service fl)"
    and "private' fl \<Longrightarrow> IsValidPrivateService (service fl)"
    by blast+
  from g show "\<exists>es. events (snd (Run fl w))
      = events w @ MkdirTempEv (tempdir w) ''client-generation-'' # es"
    by (rule Run_accepted_events)
qed

text \<open>At the language \<^verbatim>\<open>go\<close>, which is rejected, and at a run that is accepted.\<close>

theorem Run_rejects_before_any_call_witness:
  "\<not> IsValidLanguage ''go''
   \<and> Run (demo_flags\<lparr>language := ''go''\<rparr>) demo_world
       = (Fatal (''Error: Client code generation is not supported for '' @ [CHR 0x27] @ ''go''
                 @ [CHR 0x27, CHR 0x0A]), demo_world)
   \<and> events (snd (Run demo_flags demo_world)) \<noteq> events demo_world
   \<and> IsValidLanguage ''golang'' \<and> IsValidPublicService ''catalog''"
proof -
  have a: "\<not> IsValidLanguage ''go''" by (simp add: IsValidLanguage_def Language_defs)
  have b: "language (demo_flags\<lparr>language := ''go''\<rparr>) = ''go''" by simp
  have c: "events (snd (Run demo_flags demo_world)) \<noteq> events demo_world" by code_simp
  have d: "language demo_flags = ''golang'' \<and> service demo_flags = ''catalog''
      \<and> \<not> private' demo_flags"
    by (simp add: demo_flags_def)
  from Run_rejects_before_any_call [of "demo_flags\<lparr>language := ''go''\<rparr>" demo_world]
    Run_rejects_before_any_call [of demo_flags demo_world] a b c d
  show ?thesis by (auto simp: Run_def)
qed

text \<open>
  Claim C4. With a supported language, a public request ends at the gates (a fatal error,
  the world untouched) exactly when the service has no public definition, a private one
  exactly when it has no private definition; a service with both goes on to create the
  workspace under either visibility. The service \<^verbatim>\<open>jabba\<close> with visibility public
  ends at the gates, whatever the language.
\<close>
theorem service_gates:
  "(IsValidLanguage (language fl) \<longrightarrow>
      (\<not> private' fl \<longrightarrow>
         ((\<exists>m. Run fl w = (Fatal m, w)) \<longleftrightarrow> \<not> IsValidPublicService (service fl)))
      \<and> (private' fl \<longrightarrow>
         ((\<exists>m. Run fl w = (Fatal m, w)) \<longleftrightarrow> \<not> IsValidPrivateService (service fl)))
      \<and> (IsValidPublicService (service fl) \<and> IsValidPrivateService (service fl) \<longrightarrow>
         (\<exists>es. events (snd (Run fl w))
            = events w @ MkdirTempEv (tempdir w) ''client-generation-'' # es)))
   \<and> (service fl = ''jabba'' \<and> \<not> private' fl \<longrightarrow> (\<exists>m. Run fl w = (Fatal m, w)))"
proof -
  have jab: "\<not> IsValidPublicService ''jabba''"
    by (simp add: IsValidPublicService_def Service_defs)
  have a: "(\<exists>m. Run fl w = (Fatal m, w)) \<longleftrightarrow> \<not> IsValidPublicService (service fl)"
    if "IsValidLanguage (language fl)" "\<not> private' fl"
    using that Run_rejected [of fl w] Run_accepted_moves [where fl = fl and w = w] by blast
  have b: "(\<exists>m. Run fl w = (Fatal m, w)) \<longleftrightarrow> \<not> IsValidPrivateService (service fl)"
    if "IsValidLanguage (language fl)" "private' fl"
    using that Run_rejected [of fl w] Run_accepted_moves [where fl = fl and w = w] by blast
  have c: "\<exists>es. events (snd (Run fl w))
            = events w @ MkdirTempEv (tempdir w) ''client-generation-'' # es"
    if "IsValidLanguage (language fl)" "IsValidPublicService (service fl)"
      "IsValidPrivateService (service fl)"
    using that by (intro Run_accepted_events) auto
  have d: "\<exists>m. Run fl w = (Fatal m, w)" if "service fl = ''jabba''" "\<not> private' fl"
    using that jab by (intro Run_rejected) auto
  from a b c d show ?thesis by blast
qed

text \<open>
  At \<^verbatim>\<open>jabba\<close> (private only) under both visibilities, and at \<^verbatim>\<open>catalog\<close>
  (both).
\<close>

theorem service_gates_witness:
  "IsValidLanguage ''golang'' \<and> \<not> IsValidPublicService ''jabba''
   \<and> IsValidPrivateService ''jabba''
   \<and> IsValidPublicService ''catalog'' \<and> IsValidPrivateService ''catalog''
   \<and> (\<exists>m. Run (demo_flags\<lparr>service := ''jabba''\<rparr>) demo_world = (Fatal m, demo_world))
   \<and> \<not> (\<exists>m. Run (demo_flags\<lparr>service := ''jabba'', private' := True\<rparr>) demo_world
           = (Fatal m, demo_world))
   \<and> (\<exists>es. events (snd (Run demo_flags demo_world))
         = events demo_world @ MkdirTempEv (tempdir demo_world) ''client-generation-'' # es)"
proof -
  have v: "IsValidLanguage ''golang''" "\<not> IsValidPublicService ''jabba''"
    "IsValidPrivateService ''jabba''"
    "IsValidPublicService ''catalog''" "IsValidPrivateService ''catalog''"
    by (simp_all add: IsValidLanguage_def IsValidPublicService_def IsValidPrivateService_def
        Language_defs Service_defs)
  have f: "language demo_flags = ''golang''" "service demo_flags = ''catalog''"
    "\<not> private' demo_flags"
    by (simp_all add: demo_flags_def)
  from service_gates [of "demo_flags\<lparr>service := ''jabba''\<rparr>" demo_world]
    service_gates [of "demo_flags\<lparr>service := ''jabba'', private' := True\<rparr>" demo_world]
    service_gates [of demo_flags demo_world] v f
  show ?thesis by simp
qed

section \<open>The workspace is destroyed once\<close>

text \<open>
  Claim C1. In every run that passes the gates and whose \<^verbatim>\<open>os.MkdirTemp\<close> succeeds
  with the directory \<open>tmpDir\<close>, the calls made after the creation end with one
  \<open>RemoveAll\<close> of \<open>tmpDir\<close> (the call \<open>CleanUpDirectories\<close> makes), and no
  other removal comes before it: exactly one destruction, whatever stage fails and when
  none does. When the run ends, nothing is left at or below \<open>tmpDir\<close>, unless the
  run ended with the error of that removal.
\<close>
theorem workspace_destroyed_once:
  assumes "IsValidLanguage (language fl)"
    and "\<not> private' fl \<longrightarrow> IsValidPublicService (service fl)"
    and "private' fl \<longrightarrow> IsValidPrivateService (service fl)"
    and "MkdirTemp (tempdir w) ''client-generation-'' w = (Inr tmpDir, w1)"
    and "Run fl w = (out, w')"
  shows "(\<exists>es. events w' = events w1 @ es @ [RemoveAllEv tmpDir]
            \<and> (\<forall>d. RemoveAllEv d \<notin> set es))
       \<and> ((\<forall>q \<in> fst ` set (fs w'). \<not> below tmpDir q)
          \<or> (\<exists>e. out = Fatal (''Error: Could not remove directory '' @ [CHR 0x27]
                     @ path_string tmpDir @ [CHR 0x27] @ '': '' @ e)))"
  using assms by (rule Run_in_workspace)


text \<open>At the run that succeeds and at the run whose disk fills up during extraction.\<close>

theorem workspace_destroyed_once_witness:
  "(\<exists>es. events (snd (Run demo_flags demo_world))
      = [MkdirTempEv [''tmp''] ''client-generation-''] @ es
        @ [RemoveAllEv [''tmp'', ''client-generation-1'']]
      \<and> (\<forall>d. RemoveAllEv d \<notin> set es))
   \<and> fst (Run demo_flags demo_world) = Returned
   \<and> (\<exists>es. events (snd (Run demo_flags demo_faulty))
      = [MkdirTempEv [''tmp''] ''client-generation-''] @ es
        @ [RemoveAllEv [''tmp'', ''client-generation-1'']]
      \<and> (\<forall>d. RemoveAllEv d \<notin> set es))
   \<and> fst (Run demo_flags demo_faulty)
       = Fatal ''Error: cannot copy protobuf file: no space left on device''
   \<and> filter (below [''tmp'', ''client-generation-1''])
         (map fst (fs (snd (Run demo_flags demo_world)))) = []
   \<and> filter (below [''tmp'', ''client-generation-1''])
         (map fst (fs (snd (Run demo_flags demo_faulty)))) = []"
proof -
  have g: "IsValidLanguage (language demo_flags)"
    "\<not> private' demo_flags \<longrightarrow> IsValidPublicService (service demo_flags)"
    "private' demo_flags \<longrightarrow> IsValidPrivateService (service demo_flags)"
    by (simp_all add: demo_flags_def IsValidLanguage_def IsValidPublicService_def
        Language_defs Service_defs)
  have "fst (MkdirTemp (tempdir demo_world) ''client-generation-'' demo_world)
      = Inr [''tmp'', ''client-generation-1'']"
    by code_simp
  then have mk: "MkdirTemp (tempdir demo_world) ''client-generation-'' demo_world
      = (Inr [''tmp'', ''client-generation-1''],
         snd (MkdirTemp (tempdir demo_world) ''client-generation-'' demo_world))"
    by (metis prod.collapse)
  have e: "events (snd (MkdirTemp (tempdir demo_world) ''client-generation-'' demo_world))
      = [MkdirTempEv [''tmp''] ''client-generation-'']"
    by code_simp
  have "fst (MkdirTemp (tempdir demo_faulty) ''client-generation-'' demo_faulty)
      = Inr [''tmp'', ''client-generation-1'']"
    by code_simp
  then have mk': "MkdirTemp (tempdir demo_faulty) ''client-generation-'' demo_faulty
      = (Inr [''tmp'', ''client-generation-1''],
         snd (MkdirTemp (tempdir demo_faulty) ''client-generation-'' demo_faulty))"
    by (metis prod.collapse)
  have e': "events (snd (MkdirTemp (tempdir demo_faulty) ''client-generation-'' demo_faulty))
      = [MkdirTempEv [''tmp''] ''client-generation-'']"
    by code_simp
  have r: "fst (Run demo_flags demo_world) = Returned" by code_simp
  have r': "fst (Run demo_flags demo_faulty)
       = Fatal ''Error: cannot copy protobuf file: no space left on device''"
    by code_simp
  from workspace_destroyed_once [OF g mk prod.collapse [symmetric]]
    workspace_destroyed_once [OF g mk' prod.collapse [symmetric]]
  show ?thesis unfolding e e' using r r' by (auto simp: filter_empty_conv)
qed

section \<open>Extraction\<close>

lemma Create_handle: "Create p w = (Inr h, w') \<Longrightarrow> h = p"
  by (auto dest: Create_Inr)

lemma Open_handle: "Open p w = (Inr h, w') \<Longrightarrow> h = p"
  by (auto dest: Open_Inr)

lemma CopyProtobuf_loop_calls:
  "CopyProtobuf_loop s spd pd files w = (None, w') \<Longrightarrow>
   events w' = events w @ concat (map
     (\<lambda>f. [OpenEv (Join spd [f]), CreateEv (Join pd [s @ ''.proto'']),
           CopyEv (Join pd [s @ ''.proto'']) (Join spd [f])])
     (filter (\<lambda>f. Ext f = ''.proto'') files))"
proof (induction files arbitrary: w)
  case Nil
  then show ?case by simp
next
  case (Cons f files)
  let ?dst = "Join pd [s @ ''.proto'']"
  show ?case
  proof (cases "Ext f = ''.proto''")
    case False
    with Cons show ?thesis by simp
  next
    case True
    obtain r1 w1 where o: "Open (Join spd [f]) w = (r1, w1)" by fastforce
    obtain r2 w2 where c: "Create ?dst w1 = (r2, w2)" by fastforce
    from Cons.prems True o obtain src where r1: "r1 = Inr src"
      by (cases r1) auto
    from Cons.prems True o c r1 obtain dst where r2: "r2 = Inr dst"
      by (cases r2) auto
    obtain r3 w3 where cp: "Copy dst src w2 = (r3, w3)" by fastforce
    from Cons.prems True o c cp r1 r2 obtain n where r3: "r3 = Inr n"
      by (cases r3) auto
    from Cons.prems True o c cp r1 r2 r3
    have rest: "CopyProtobuf_loop s spd pd files w3 = (None, w')" by simp
    have h: "src = Join spd [f]" "dst = ?dst"
      using o c r1 r2 by (auto dest: Open_handle Create_handle)
    have "events w3 = events w @ [OpenEv (Join spd [f]), CreateEv ?dst, CopyEv ?dst (Join spd [f])]"
      using Open_events [OF o] Create_events [OF c] Copy_events [OF cp] h by simp
    with Cons.IH [OF rest] True show ?thesis by simp
  qed
qed


lemma CopyProtobuf_loop_err:
  assumes "CopyProtobuf_loop s spd pd files w = (Some e, w')"
    and "\<forall>f\<in>set files. Ext f = ''.proto'' \<longrightarrow> Join spd [f] \<noteq> Join pd [s @ ''.proto'']"
  shows "(\<forall>p. p \<noteq> Join pd [s @ ''.proto''] \<longrightarrow> map_of (fs w') p = map_of (fs w) p)
    \<and> ((\<forall>m. e \<noteq> CopyProtoFailed m) \<longrightarrow>
         map_of (fs w') (Join pd [s @ ''.proto'']) = map_of (fs w) (Join pd [s @ ''.proto''])
         \<or> (\<exists>f\<in>set files. Ext f = ''.proto'' \<and>
              (\<exists>c. map_of (fs w) (Join spd [f]) = Some (File c)
                 \<and> map_of (fs w') (Join pd [s @ ''.proto'']) = Some (File c))))
    \<and> ((\<exists>m. e = CopyProtoFailed m) \<longrightarrow>
         (\<exists>c. map_of (fs w') (Join pd [s @ ''.proto'']) = Some (File c)
            \<and> (c = [] \<or> (\<exists>f\<in>set files. Ext f = ''.proto'' \<and>
                  (\<exists>c'. map_of (fs w) (Join spd [f]) = Some (File c') \<and> prefix c c')))))"
  using assms
proof (induction files arbitrary: w)
  case Nil
  then show ?case by simp
next
  case (Cons f files)
  let ?dst = "Join pd [s @ ''.proto'']"
  show ?case
  proof (cases "Ext f = ''.proto''")
    case False
    with Cons.prems have "CopyProtobuf_loop s spd pd files w = (Some e, w')"
      and "\<forall>f\<in>set files. Ext f = ''.proto'' \<longrightarrow> Join spd [f] \<noteq> ?dst" by simp_all
    from Cons.IH [OF this] show ?thesis by auto
  next
    case True
    with Cons.prems have ne: "Join spd [f] \<noteq> ?dst"
      and ne': "\<forall>f\<in>set files. Ext f = ''.proto'' \<longrightarrow> Join spd [f] \<noteq> ?dst" by simp_all
    obtain r1 w1 where o: "Open (Join spd [f]) w = (r1, w1)" by fastforce
    have f1: "fs w1 = fs w" using o by (rule Open_fs)
    show ?thesis
    proof (cases r1)
      case (Inl x)
      with Cons.prems True o have "e = OpenProtoFailed x" "w' = w1" by simp_all
      with f1 show ?thesis by simp
    next
      case (Inr src)
      note r1 = this
      with o have src: "src = Join spd [f]" by (auto dest: Open_Inr)
      obtain r2 w2 where c: "Create ?dst w1 = (r2, w2)" by fastforce
      show ?thesis
      proof (cases r2)
        case (Inl x)
        with Cons.prems True o r1 c have "e = CreateProtoFailed x" "w' = w2" by simp_all
        moreover from c Inl have "fs w2 = fs w1" by (auto dest: Create_Inl)
        ultimately show ?thesis using f1 by simp
      next
        case (Inr dst)
        note r2 = this
        with c have dst: "dst = ?dst"
          and f2: "map_of (fs w2) = (map_of (fs w))(?dst \<mapsto> File [])"
          using f1 by (auto dest: Create_Inr)
        obtain r3 w3 where cp: "Copy dst src w2 = (r3, w3)" by fastforce
        show ?thesis
        proof (cases r3)
          case (Inl x)
          with Cons.prems True o r1 c r2 cp have e: "e = CopyProtoFailed x" and w': "w' = w3"
            by simp_all
          from cp Inl have "fs w3 = fs w2 \<or>
            (\<exists>c k. map_of (fs w2) src = Some (File c)
               \<and> map_of (fs w3) = (map_of (fs w2))(dst \<mapsto> File (take k c)))"
            by (auto dest: Copy_Inl)
          then show ?thesis
          proof
            assume "fs w3 = fs w2"
            with e w' f2 show ?thesis by simp
          next
            assume "\<exists>c k. map_of (fs w2) src = Some (File c)
               \<and> map_of (fs w3) = (map_of (fs w2))(dst \<mapsto> File (take k c))"
            then obtain c k where c2: "map_of (fs w2) src = Some (File c)"
              and m3: "map_of (fs w3) = (map_of (fs w2))(dst \<mapsto> File (take k c))" by blast
            from c2 f2 src ne have c0: "map_of (fs w) (Join spd [f]) = Some (File c)" by simp
            have "prefix (take k c) c" by (rule take_is_prefix)
            with e w' m3 f2 dst c0 True show ?thesis by auto
          qed
        next
          case (Inr n)
          with Cons.prems True o r1 c r2 cp
          have rest: "CopyProtobuf_loop s spd pd files w3 = (Some e, w')" by simp
          from copy_round [OF o [unfolded r1] c [unfolded r2] cp [unfolded Inr]] src ne
          obtain cnt where m3: "map_of (fs w3) = (map_of (fs w))(?dst \<mapsto> File cnt)"
            and s0: "map_of (fs w) (Join spd [f]) = Some (File cnt)" by auto
          note IH = Cons.IH [OF rest ne']
          have same: "map_of (fs w3) (Join spd [g]) = map_of (fs w) (Join spd [g])"
            if "g \<in> set files" "Ext g = ''.proto''" for g
            using that ne' m3 by simp
          have A: "\<forall>p. p \<noteq> ?dst \<longrightarrow> map_of (fs w') p = map_of (fs w) p"
            using IH m3 by simp
          have B: "map_of (fs w') ?dst = map_of (fs w) ?dst
              \<or> (\<exists>g\<in>set (f # files). Ext g = ''.proto'' \<and>
                  (\<exists>c. map_of (fs w) (Join spd [g]) = Some (File c)
                     \<and> map_of (fs w') ?dst = Some (File c)))"
            if "\<forall>m. e \<noteq> CopyProtoFailed m"
          proof -
            from IH that have "map_of (fs w') ?dst = map_of (fs w3) ?dst
              \<or> (\<exists>g\<in>set files. Ext g = ''.proto'' \<and>
                  (\<exists>c. map_of (fs w3) (Join spd [g]) = Some (File c)
                     \<and> map_of (fs w') ?dst = Some (File c)))" by blast
            then show ?thesis
            proof
              assume "map_of (fs w') ?dst = map_of (fs w3) ?dst"
              with m3 have "map_of (fs w') ?dst = Some (File cnt)" by simp
              with s0 True show ?thesis by auto
            next
              assume "\<exists>g\<in>set files. Ext g = ''.proto'' \<and>
                  (\<exists>c. map_of (fs w3) (Join spd [g]) = Some (File c)
                     \<and> map_of (fs w') ?dst = Some (File c))"
              then obtain g c where g: "g \<in> set files" "Ext g = ''.proto''"
                and a: "map_of (fs w3) (Join spd [g]) = Some (File c)"
                and b: "map_of (fs w') ?dst = Some (File c)" by blast
              from a same [OF g] have "map_of (fs w) (Join spd [g]) = Some (File c)" by simp
              with g b have "\<exists>g\<in>set (f # files). Ext g = ''.proto'' \<and>
                  (\<exists>c. map_of (fs w) (Join spd [g]) = Some (File c)
                     \<and> map_of (fs w') ?dst = Some (File c))"
                by (intro bexI [of _ g]) auto
              then show ?thesis by (rule disjI2)
            qed
          qed
          have C: "\<exists>c. map_of (fs w') ?dst = Some (File c)
            \<and> (c = [] \<or> (\<exists>g\<in>set (f # files). Ext g = ''.proto'' \<and>
                  (\<exists>c'. map_of (fs w) (Join spd [g]) = Some (File c') \<and> prefix c c')))"
            if "\<exists>m. e = CopyProtoFailed m"
          proof -
            from IH that obtain c where c: "map_of (fs w') ?dst = Some (File c)"
              and d: "c = [] \<or> (\<exists>g\<in>set files. Ext g = ''.proto'' \<and>
                  (\<exists>c'. map_of (fs w3) (Join spd [g]) = Some (File c') \<and> prefix c c'))"
              by blast
            from d show ?thesis
            proof
              assume "c = []"
              with c show ?thesis by simp
            next
              assume "\<exists>g\<in>set files. Ext g = ''.proto'' \<and>
                  (\<exists>c'. map_of (fs w3) (Join spd [g]) = Some (File c') \<and> prefix c c')"
              then obtain g c' where g: "g \<in> set files" "Ext g = ''.proto''"
                and a: "map_of (fs w3) (Join spd [g]) = Some (File c')"
                and b: "prefix c c'" by blast
              from a same [OF g] have "map_of (fs w) (Join spd [g]) = Some (File c')" by simp
              with g b have "\<exists>g\<in>set (f # files). Ext g = ''.proto'' \<and>
                  (\<exists>c'. map_of (fs w) (Join spd [g]) = Some (File c') \<and> prefix c c')"
                by (intro bexI [of _ g]) auto
              with c show ?thesis by blast
            qed
          qed
          from A B C show ?thesis by blast
        qed
      qed
    qed
  qed
qed


lemma filter_Ext_proto:
  "filter (\<lambda>f. Ext f = ''.proto'') files = filter (\<lambda>f. suffix ''.proto'' f) files"
  by (simp add: Ext_proto_iff)

lemma serviceProtoDir_eq:
  "(if priv then Join serviceDir [''proto'', ''private'']
    else Join serviceDir [''proto'', ''public''])
   = Join serviceDir [''proto'', if priv then ''private'' else ''public'']"
  by simp

text \<open>
  Claim C5. After an extraction that returned nil, with \<open>q\<close> the entries of the selected
  source directory whose names end in \<^verbatim>\<open>.proto\<close>, in the order read: no path but the
  canonical one \<open>protoDir/<service>.proto\<close> has changed (no other file is staged, a
  README least of all); without a qualifying entry nothing has changed at all; otherwise
  the canonical file holds the bytes of the last qualifying file, which are the bytes that
  file had before the call when it is not the canonical file itself. The calls made are
  the reading of the directory and then, for each entry of \<open>q\<close> in turn, the opening of
  that file, the creation of the canonical file and the copy into it.
\<close>
theorem extraction_stages_last_definition:
  assumes "CopyProtobuf svc serviceDir protoDir priv w = (None, w')"
  shows "let srcDir = Join serviceDir [''proto'', if priv then ''private'' else ''public''];
             dst = Join protoDir [svc @ ''.proto''];
             q = filter (\<lambda>f. suffix ''.proto'' f) (entries (fs w) srcDir)
         in (\<forall>p. p \<noteq> dst \<longrightarrow> map_of (fs w') p = map_of (fs w) p)
          \<and> (q = [] \<longrightarrow> fs w' = fs w)
          \<and> (q \<noteq> [] \<longrightarrow>
               (\<exists>c. map_of (fs w') dst = Some (File c)
                  \<and> map_of (fs w') (Join srcDir [last q]) = Some (File c)))
          \<and> (q \<noteq> [] \<and> Join srcDir [last q] \<noteq> dst \<longrightarrow>
               map_of (fs w') dst = map_of (fs w) (Join srcDir [last q]))
          \<and> events w' = events w @ ReadDirEv srcDir # concat (map
               (\<lambda>f. [OpenEv (Join srcDir [f]), CreateEv dst, CopyEv dst (Join srcDir [f])]) q)"
proof -
  define srcDir where "srcDir = Join serviceDir [''proto'', if priv then ''private'' else ''public'']"
  define dst where "dst = Join protoDir [svc @ ''.proto'']"
  define q where "q = filter (\<lambda>f. suffix ''.proto'' f) (entries (fs w) srcDir)"
  obtain r w1 where rd: "ReadDir srcDir w = (r, w1)" by fastforce
  from assms rd obtain files where r: "r = Inr files"
    and loop: "CopyProtobuf_loop svc srcDir protoDir files w1 = (None, w')"
    unfolding CopyProtobuf_def Let_def serviceProtoDir_eq srcDir_def [symmetric]
    by (cases r) auto
  from rd r have files: "files = entries (fs w) srcDir" and f1: "fs w1 = fs w"
    by (auto dest: ReadDir_Inr ReadDir_fs)
  have q: "filter (\<lambda>f. Ext f = ''.proto'') files = q"
    by (simp add: q_def files filter_Ext_proto)
  note L = CopyProtobuf_loop_ok [OF loop, unfolded q f1 dst_def [symmetric]]
  from L have a: "\<forall>p. p \<noteq> dst \<longrightarrow> map_of (fs w') p = map_of (fs w) p" by blast
  from L have b: "q = [] \<longrightarrow> fs w' = fs w" by blast
  from L have c: "q \<noteq> [] \<longrightarrow> (\<exists>c. map_of (fs w') dst = Some (File c)
                  \<and> map_of (fs w') (Join srcDir [last q]) = Some (File c))" by blast
  from a c have d: "q \<noteq> [] \<and> Join srcDir [last q] \<noteq> dst \<longrightarrow>
               map_of (fs w') dst = map_of (fs w) (Join srcDir [last q])" by auto
  have e: "events w' = events w @ ReadDirEv srcDir # concat (map
               (\<lambda>f. [OpenEv (Join srcDir [f]), CreateEv dst, CopyEv dst (Join srcDir [f])]) q)"
    using CopyProtobuf_loop_calls [OF loop, unfolded q dst_def [symmetric]]
      ReadDir_events [OF rd] by simp
  from a b c d e show ?thesis
    unfolding Let_def srcDir_def [symmetric] dst_def [symmetric] q_def [symmetric] by blast
qed

text \<open>
  At the tree with \<^verbatim>\<open>README.md\<close>, \<^verbatim>\<open>a.proto\<close> and \<^verbatim>\<open>b.proto\<close>: the
  canonical file holds the bytes of \<^verbatim>\<open>b.proto\<close>.
\<close>

theorem extraction_stages_last_definition_witness:
  "fst (CopyProtobuf ''catalog'' [''src''] [''stage''] False stage_world) = None
   \<and> filter (\<lambda>f. suffix ''.proto'' f) (entries (fs stage_world) [''src'', ''proto'', ''public''])
       = [''a.proto'', ''b.proto'']
   \<and> map_of (fs (snd (CopyProtobuf ''catalog'' [''src''] [''stage''] False stage_world)))
        [''stage'', ''catalog.proto''] = Some (File ''second'')
   \<and> map_of (fs (snd (CopyProtobuf ''catalog'' [''src''] [''stage''] False stage_world)))
        [''stage'', ''README.md''] = None
   \<and> events (snd (CopyProtobuf ''catalog'' [''src''] [''stage''] False stage_world))
       = [ReadDirEv [''src'', ''proto'', ''public''],
          OpenEv [''src'', ''proto'', ''public'', ''a.proto''],
          CreateEv [''stage'', ''catalog.proto''],
          CopyEv [''stage'', ''catalog.proto''] [''src'', ''proto'', ''public'', ''a.proto''],
          OpenEv [''src'', ''proto'', ''public'', ''b.proto''],
          CreateEv [''stage'', ''catalog.proto''],
          CopyEv [''stage'', ''catalog.proto''] [''src'', ''proto'', ''public'', ''b.proto'']]"
proof -
  have ok: "fst (CopyProtobuf ''catalog'' [''src''] [''stage''] False stage_world) = None"
    by code_simp
  have j: "Join [''src''] [''proto'', if False then ''private'' else ''public'']
      = [''src'', ''proto'', ''public'']"
    "Join [''stage''] [''catalog'' @ ''.proto''] = [''stage'', ''catalog.proto'']"
    by code_simp+
  have e: "entries (fs stage_world) [''src'', ''proto'', ''public'']
      = [''README.md'', ''a.proto'', ''b.proto'']"
    by code_simp
  have q: "filter (\<lambda>f. suffix ''.proto'' f) [''README.md'', ''a.proto'', ''b.proto'']
      = [''a.proto'', ''b.proto'']"
    by (simp add: Ext_proto_iff [symmetric] Ext_def)
  have l: "Join [''src'', ''proto'', ''public''] [''b.proto'']
      = [''src'', ''proto'', ''public'', ''b.proto'']"
    by code_simp
  have v: "map_of (fs stage_world) [''src'', ''proto'', ''public'', ''b.proto'']
      = Some (File ''second'')"
    "map_of (fs stage_world) [''stage'', ''README.md''] = None"
    by (simp_all add: stage_world_def)
  from extraction_stages_last_definition
    [of "''catalog''" "[''src'']" "[''stage'']" False stage_world
      "snd (CopyProtobuf ''catalog'' [''src''] [''stage''] False stage_world)"] ok
  have "let srcDir = Join [''src''] [''proto'', if False then ''private'' else ''public''];
             dst = Join [''stage''] [''catalog'' @ ''.proto''];
             q = filter (\<lambda>f. suffix ''.proto'' f) (entries (fs stage_world) srcDir)
         in (\<forall>p. p \<noteq> dst \<longrightarrow>
               map_of (fs (snd (CopyProtobuf ''catalog'' [''src''] [''stage''] False stage_world))) p
               = map_of (fs stage_world) p)
          \<and> (q \<noteq> [] \<and> Join srcDir [last q] \<noteq> dst \<longrightarrow>
               map_of (fs (snd (CopyProtobuf ''catalog'' [''src''] [''stage''] False stage_world))) dst
               = map_of (fs stage_world) (Join srcDir [last q]))
          \<and> events (snd (CopyProtobuf ''catalog'' [''src''] [''stage''] False stage_world))
              = events stage_world @ ReadDirEv srcDir # concat (map
               (\<lambda>f. [OpenEv (Join srcDir [f]), CreateEv dst, CopyEv dst (Join srcDir [f])]) q)"
    by (metis (no_types, lifting) prod.collapse)
  moreover have "events stage_world = []" by (simp add: stage_world_def)
  moreover have "Join [''src'', ''proto'', ''public''] [''a.proto'']
      = [''src'', ''proto'', ''public'', ''a.proto'']"
    by code_simp
  ultimately show ?thesis unfolding j e q Let_def using ok v l by simp
qed


lemma syscall_fault_free:
  "fault_free w \<Longrightarrow>
   syscall ev w = (None, w\<lparr>events := events w @ [ev], schedule := tl (schedule w)\<rparr>)"
  by (cases "schedule w") (auto simp: syscall_def fault_free_def)

lemma fault_free_tl: "fault_free w \<Longrightarrow> fault_free (w\<lparr>events := es, schedule := tl (schedule w)\<rparr>)"
  by (cases "schedule w") (auto simp: fault_free_def)

lemma GenerateCode_starts:
  assumes ff: "fault_free w" and c: "protocCmd lang svc dir = Some (Command n args)"
  shows "events (snd (GenerateCode lang svc dir w))
     = events w @ [PipeEv, PipeEv, StartEv n args, ReadAllEv, ReadAllEv, WaitEv]"
proof -
  define w1 where "w1 = w\<lparr>events := events w @ [PipeEv], schedule := tl (schedule w)\<rparr>"
  define w2 where "w2 = w1\<lparr>events := events w1 @ [PipeEv], schedule := tl (schedule w1)\<rparr>"
  define w3 where "w3 = w2\<lparr>events := events w2 @ [StartEv n args], schedule := tl (schedule w2)\<rparr>"
  define p where "p = programs w3 n args (fs w3)"
  define w3' where "w3' = w3\<lparr>fs := leaves p\<rparr>"
  define w4 where "w4 = w3'\<lparr>events := events w3' @ [ReadAllEv], schedule := tl (schedule w3')\<rparr>"
  define w5 where "w5 = (if length (stdout p) > 0
                     then Printf ([CHR 0x0A, CHR 0x0A] @ stdout p @ [CHR 0x0A, CHR 0x0A]) w4
                     else w4)"
  define w6 where "w6 = w5\<lparr>events := events w5 @ [ReadAllEv], schedule := tl (schedule w5)\<rparr>"
  define w7 where "w7 = (if length (stderr p) > 0
                     then Printf (''Generator encountered error:'' @ [CHR 0x0A, CHR 0x0A]
                                  @ stderr p @ [CHR 0x0A]) w6
                     else w6)"
  define w8 where "w8 = w7\<lparr>events := events w7 @ [WaitEv], schedule := tl (schedule w7)\<rparr>"
  have f1: "fault_free w1" unfolding w1_def using ff by (rule fault_free_tl)
  have f2: "fault_free w2" unfolding w2_def using f1 by (rule fault_free_tl)
  have f3: "fault_free w3" unfolding w3_def using f2 by (rule fault_free_tl)
  have f3': "fault_free w3'" using f3 by (simp add: w3'_def fault_free_def)
  have f4: "fault_free w4" unfolding w4_def using f3' by (rule fault_free_tl)
  have f5: "fault_free w5" using f4 by (simp add: w5_def fault_free_def Printf_def)
  have f6: "fault_free w6" unfolding w6_def using f5 by (rule fault_free_tl)
  have f7: "fault_free w7" using f6 by (simp add: w7_def fault_free_def Printf_def)
  have s1: "Pipe w = (None, w1)" by (simp add: Pipe_def syscall_fault_free [OF ff] w1_def)
  have s2: "Pipe w1 = (None, w2)" by (simp add: Pipe_def syscall_fault_free [OF f1] w2_def)
  have s3: "Start (Command n args) w2 = (Inr p, w3')"
    by (simp add: syscall_fault_free [OF f2] w3_def [symmetric] p_def [symmetric] w3'_def Let_def)
  have s4: "ReadAll (stdout p) w3' = (Inr (stdout p), w4)"
    by (simp add: ReadAll_def syscall_fault_free [OF f3'] w4_def)
  have s6: "ReadAll (stderr p) w5 = (Inr (stderr p), w6)"
    by (simp add: ReadAll_def syscall_fault_free [OF f5] w6_def)
  have s8: "Wait p w7 = (status p, w8)"
    by (simp add: Wait_def syscall_fault_free [OF f7] w8_def)
  have "GenerateCode lang svc dir w =
      (case Wait p w7 of
         (Some e, w8) \<Rightarrow> (Some (GeneratorFailed e), w8)
       | (None, w8) \<Rightarrow> (None, w8))"
    by (simp only: GenerateCode_def c option.case s1 s2 s3 s4 s6 prod.case sum.case Let_def
        w5_def [symmetric] w7_def [symmetric])
  then have "snd (GenerateCode lang svc dir w) = w8"
    by (simp add: s8 split: option.splits)
  moreover have "events w8 = events w @ [PipeEv, PipeEv, StartEv n args, ReadAllEv, ReadAllEv, WaitEv]"
    by (simp add: w8_def w7_def w6_def w5_def w4_def w3'_def w3_def w2_def w1_def Printf_def)
  ultimately show ?thesis by simp
qed

lemma protocCmd_input:
  "protocCmd lang svc dir = Some c \<Longrightarrow>
   \<exists>args. c = Command ''protoc'' args \<and> last args = path_string (Join dir [svc @ ''.proto''])"
  by (auto simp: protocCmd_def goGenerateCmd_def rubyGenerateCmd_def pythonGenerateCmd_def
      javascriptGenerateCmd_def split: if_splits)

lemma CopyProtobuf_loop_none:
  "\<forall>f\<in>set files. Ext f \<noteq> ''.proto'' \<Longrightarrow> CopyProtobuf_loop s spd pd files w = (None, w)"
  by (induction files) auto

text \<open>
  Claim C10. When the selected source directory can be read and none of its entries ends in
  \<^verbatim>\<open>.proto\<close>, extraction returns nil having made the one call that read the
  directory, and the files are as they were: no canonical file has been created. The
  command of every language that has one names the canonical path as its input, and where
  no call fails \<open>GenerateCode\<close> starts the compiler on it.
\<close>
theorem extraction_without_definition:
  assumes "ReadDir (Join serviceDir [''proto'', if priv then ''private'' else ''public'']) w
      = (Inr files, w1)"
    and "\<forall>f\<in>set files. \<not> suffix ''.proto'' f"
  shows "CopyProtobuf svc serviceDir protoDir priv w = (None, w1)
    \<and> fs w1 = fs w
    \<and> events w1
        = events w @ [ReadDirEv (Join serviceDir [''proto'', if priv then ''private'' else ''public''])]
    \<and> (\<forall>lang c. protocCmd lang svc protoDir = Some c \<longrightarrow>
          (\<exists>args. c = Command ''protoc'' args
             \<and> last args = path_string (Join protoDir [svc @ ''.proto''])
             \<and> (fault_free w1 \<longrightarrow>
                  StartEv ''protoc'' args
                    \<in> set (events (snd (GenerateCode lang svc protoDir w1))))))"
proof -
  from assms(2) have n: "\<forall>f\<in>set files. Ext f \<noteq> ''.proto''" by (simp add: Ext_proto_iff)
  have a: "CopyProtobuf svc serviceDir protoDir priv w = (None, w1)"
    unfolding CopyProtobuf_def Let_def serviceProtoDir_eq
    using assms(1) CopyProtobuf_loop_none [OF n] by simp
  have b: "fs w1 = fs w" using assms(1) by (rule ReadDir_fs)
  have c: "events w1
        = events w @ [ReadDirEv (Join serviceDir [''proto'', if priv then ''private'' else ''public''])]"
    using assms(1) by (rule ReadDir_events)
  have d: "\<exists>args. c = Command ''protoc'' args
             \<and> last args = path_string (Join protoDir [svc @ ''.proto''])
             \<and> (fault_free w1 \<longrightarrow>
                  StartEv ''protoc'' args
                    \<in> set (events (snd (GenerateCode lang svc protoDir w1))))"
    if p: "protocCmd lang svc protoDir = Some c" for lang c
  proof -
    from protocCmd_input [OF p] obtain args where c: "c = Command ''protoc'' args"
      and l: "last args = path_string (Join protoDir [svc @ ''.proto''])" by blast
    have "StartEv ''protoc'' args \<in> set (events (snd (GenerateCode lang svc protoDir w1)))"
      if "fault_free w1"
      using GenerateCode_starts [OF that p [unfolded c]] by simp
    with c l show ?thesis by blast
  qed
  from a b c d show ?thesis by blast
qed


text \<open>At \<^verbatim>\<open>proto/private\<close> of the tree, which holds only a text file.\<close>

theorem extraction_without_definition_witness:
  "CopyProtobuf ''catalog'' [''src''] [''stage''] True stage_world
     = (None, snd (ReadDir [''src'', ''proto'', ''private''] stage_world))
   \<and> fs (snd (ReadDir [''src'', ''proto'', ''private''] stage_world)) = fs stage_world
   \<and> map_of (fs stage_world) [''stage'', ''catalog.proto''] = None
   \<and> StartEv ''protoc''
        [''--twirp_out=paths=source_relative:/stage'', ''--go_out=paths=source_relative:/stage'',
         ''--proto_path=/stage'', ''/stage/catalog.proto'']
      \<in> set (events (snd (GenerateCode ''golang'' ''catalog'' [''stage'']
                 (snd (ReadDir [''src'', ''proto'', ''private''] stage_world)))))"
proof -
  have j: "Join [''src''] [''proto'', if True then ''private'' else ''public'']
      = [''src'', ''proto'', ''private'']"
    by code_simp
  have "fst (ReadDir [''src'', ''proto'', ''private''] stage_world) = Inr [''notes.txt'']"
    by code_simp
  then have rd: "ReadDir (Join [''src''] [''proto'', if True then ''private'' else ''public''])
      stage_world = (Inr [''notes.txt''], snd (ReadDir [''src'', ''proto'', ''private''] stage_world))"
    unfolding j by (metis prod.collapse)
  have ns: "\<forall>f\<in>set [''notes.txt'']. \<not> suffix ''.proto'' f"
    by (simp add: Ext_proto_iff [symmetric] Ext_def)
  have ff: "fault_free (snd (ReadDir [''src'', ''proto'', ''private''] stage_world))"
    by code_simp
  have pc: "protocCmd ''golang'' ''catalog'' [''stage''] = Some (Command ''protoc''
        [''--twirp_out=paths=source_relative:/stage'', ''--go_out=paths=source_relative:/stage'',
         ''--proto_path=/stage'', ''/stage/catalog.proto''])"
    by code_simp
  have ab: "map_of (fs stage_world) [''stage'', ''catalog.proto''] = None"
    by (simp add: stage_world_def)
  from extraction_without_definition [OF rd ns, of "''catalog''" "[''stage'']"] pc ff ab
  show ?thesis by auto
qed

text \<open>
  Claim C8, amended. Let extraction return an error, with no qualifying file of the source
  directory being the canonical file itself. Then no path but the canonical one has
  changed. If the error is not the copy error (the directory could not be read, a file not
  opened, the canonical file not created), the canonical file is as it was before the call
  or holds all the bytes of a qualifying file. If it is the copy error, the canonical file
  exists and holds a prefix of the bytes of a qualifying file, possibly a proper one or
  none: the code truncates the canonical file and writes into it in place.
\<close>
theorem extraction_error_states:
  assumes "CopyProtobuf svc serviceDir protoDir priv w = (Some e, w')"
    and "\<forall>f \<in> set (entries (fs w)
            (Join serviceDir [''proto'', if priv then ''private'' else ''public''])).
          suffix ''.proto'' f \<longrightarrow>
          Join (Join serviceDir [''proto'', if priv then ''private'' else ''public'']) [f]
            \<noteq> Join protoDir [svc @ ''.proto'']"
  shows "let srcDir = Join serviceDir [''proto'', if priv then ''private'' else ''public''];
             dst = Join protoDir [svc @ ''.proto''];
             q = filter (\<lambda>f. suffix ''.proto'' f) (entries (fs w) srcDir)
         in (\<forall>p. p \<noteq> dst \<longrightarrow> map_of (fs w') p = map_of (fs w) p)
          \<and> ((\<forall>m. e \<noteq> CopyProtoFailed m) \<longrightarrow>
               map_of (fs w') dst = map_of (fs w) dst
               \<or> (\<exists>f\<in>set q. \<exists>c. map_of (fs w) (Join srcDir [f]) = Some (File c)
                     \<and> map_of (fs w') dst = Some (File c)))
          \<and> ((\<exists>m. e = CopyProtoFailed m) \<longrightarrow>
               (\<exists>c. map_of (fs w') dst = Some (File c)
                  \<and> (c = [] \<or> (\<exists>f\<in>set q. \<exists>c'. map_of (fs w) (Join srcDir [f]) = Some (File c')
                       \<and> prefix c c'))))"
proof -
  define srcDir where "srcDir = Join serviceDir [''proto'', if priv then ''private'' else ''public'']"
  define dst where "dst = Join protoDir [svc @ ''.proto'']"
  define q where "q = filter (\<lambda>f. suffix ''.proto'' f) (entries (fs w) srcDir)"
  obtain r w1 where rd: "ReadDir srcDir w = (r, w1)" by fastforce
  have f1: "fs w1 = fs w" using rd by (rule ReadDir_fs)
  have cp: "(case r of Inl x \<Rightarrow> (Some (ReadServiceDirFailed x), w1)
              | Inr files \<Rightarrow> CopyProtobuf_loop svc srcDir protoDir files w1) = (Some e, w')"
    using assms(1) rd
    unfolding CopyProtobuf_def Let_def serviceProtoDir_eq srcDir_def [symmetric] by simp
  have "(\<forall>p. p \<noteq> dst \<longrightarrow> map_of (fs w') p = map_of (fs w) p)
          \<and> ((\<forall>m. e \<noteq> CopyProtoFailed m) \<longrightarrow>
               map_of (fs w') dst = map_of (fs w) dst
               \<or> (\<exists>f\<in>set q. \<exists>c. map_of (fs w) (Join srcDir [f]) = Some (File c)
                     \<and> map_of (fs w') dst = Some (File c)))
          \<and> ((\<exists>m. e = CopyProtoFailed m) \<longrightarrow>
               (\<exists>c. map_of (fs w') dst = Some (File c)
                  \<and> (c = [] \<or> (\<exists>f\<in>set q. \<exists>c'. map_of (fs w) (Join srcDir [f]) = Some (File c')
                       \<and> prefix c c'))))"
  proof (cases r)
    case (Inl x)
    with cp have "e = ReadServiceDirFailed x" "w' = w1" by simp_all
    with f1 show ?thesis by simp
  next
    case (Inr files)
    with cp have loop: "CopyProtobuf_loop svc srcDir protoDir files w1 = (Some e, w')" by simp
    from rd Inr have files: "files = entries (fs w) srcDir" by (auto dest: ReadDir_Inr)
    have sq: "set q = {f \<in> set files. Ext f = ''.proto''}"
      by (auto simp: q_def files Ext_proto_iff)
    have apart: "\<forall>f\<in>set files. Ext f = ''.proto'' \<longrightarrow> Join srcDir [f] \<noteq> Join protoDir [svc @ ''.proto'']"
      using assms(2) unfolding srcDir_def [symmetric] files by (simp add: Ext_proto_iff)
    note L = CopyProtobuf_loop_err [OF loop apart, unfolded f1 dst_def [symmetric]]
    from L have a: "\<forall>p. p \<noteq> dst \<longrightarrow> map_of (fs w') p = map_of (fs w) p" by blast
    from L have b: "(\<forall>m. e \<noteq> CopyProtoFailed m) \<longrightarrow>
               map_of (fs w') dst = map_of (fs w) dst
               \<or> (\<exists>f\<in>set q. \<exists>c. map_of (fs w) (Join srcDir [f]) = Some (File c)
                     \<and> map_of (fs w') dst = Some (File c))"
      unfolding sq by blast
    from L have c: "(\<exists>m. e = CopyProtoFailed m) \<longrightarrow>
               (\<exists>c. map_of (fs w') dst = Some (File c)
                  \<and> (c = [] \<or> (\<exists>f\<in>set q. \<exists>c'. map_of (fs w) (Join srcDir [f]) = Some (File c')
                       \<and> prefix c c')))"
      unfolding sq by blast
    from a b c show ?thesis by blast
  qed
  then show ?thesis
    unfolding Let_def srcDir_def [symmetric] dst_def [symmetric] q_def [symmetric] .
qed


text \<open>
  Claim C8 as stated fails when the disk fills up during the copy: extraction returns the
  copy error and the canonical file is left with the first three bytes of the source,
  neither absent nor a full copy of a definition file.
\<close>

theorem extraction_half_written_counterexample:
  "fst (CopyProtobuf ''catalog'' [''src''] [''stage''] False stage_short_disk)
     = Some (CopyProtoFailed ''no space left on device'')
   \<and> map_of (fs stage_short_disk) [''src'', ''proto'', ''public'', ''a.proto'']
       = Some (File ''first'')
   \<and> map_of (fs (snd (CopyProtobuf ''catalog'' [''src''] [''stage''] False stage_short_disk)))
        [''stage'', ''catalog.proto''] = Some (File ''fir'')
   \<and> \<not> (map_of (fs (snd (CopyProtobuf ''catalog'' [''src''] [''stage''] False stage_short_disk)))
          [''stage'', ''catalog.proto'']
        \<in> {None, Some (File ''first''), Some (File ''second'')})"
proof -
  have a: "fst (CopyProtobuf ''catalog'' [''src''] [''stage''] False stage_short_disk)
     = Some (CopyProtoFailed ''no space left on device'')"
    by code_simp
  have b: "map_of (fs stage_short_disk) [''src'', ''proto'', ''public'', ''a.proto'']
       = Some (File ''first'')"
    by code_simp
  have c: "map_of (fs (snd (CopyProtobuf ''catalog'' [''src''] [''stage''] False stage_short_disk)))
        [''stage'', ''catalog.proto''] = Some (File ''fir'')"
    by code_simp
  from a b c show ?thesis by simp
qed

text \<open>At the disk that fills up, and at the second file that cannot be opened.\<close>

theorem extraction_error_states_witness:
  "fst (CopyProtobuf ''catalog'' [''src''] [''stage''] False stage_short_disk)
     = Some (CopyProtoFailed ''no space left on device'')
   \<and> (\<exists>c. map_of (fs (snd (CopyProtobuf ''catalog'' [''src''] [''stage''] False stage_short_disk)))
            [''stage'', ''catalog.proto''] = Some (File c)
        \<and> (c = [] \<or> (\<exists>f\<in>set [''a.proto'', ''b.proto''].
              \<exists>c'. map_of (fs stage_short_disk) (Join [''src'', ''proto'', ''public''] [f])
                     = Some (File c') \<and> prefix c c')))
   \<and> fst (CopyProtobuf ''catalog'' [''src''] [''stage''] False stage_locked)
     = Some (OpenProtoFailed ''permission denied'')
   \<and> (map_of (fs (snd (CopyProtobuf ''catalog'' [''src''] [''stage''] False stage_locked)))
            [''stage'', ''catalog.proto'']
         = map_of (fs stage_locked) [''stage'', ''catalog.proto'']
       \<or> (\<exists>f\<in>set [''a.proto'', ''b.proto''].
              \<exists>c. map_of (fs stage_locked) (Join [''src'', ''proto'', ''public''] [f])
                     = Some (File c)
                \<and> map_of (fs (snd (CopyProtobuf ''catalog'' [''src''] [''stage''] False
                      stage_locked))) [''stage'', ''catalog.proto''] = Some (File c)))
   \<and> map_of (fs (snd (CopyProtobuf ''catalog'' [''src''] [''stage''] False stage_locked)))
        [''stage'', ''catalog.proto''] = Some (File ''first'')"
proof -
  have j: "Join [''src''] [''proto'', if False then ''private'' else ''public'']
      = [''src'', ''proto'', ''public'']"
    "Join [''stage''] [''catalog'' @ ''.proto''] = [''stage'', ''catalog.proto'']"
    by code_simp+
  have e: "entries (fs stage_short_disk) [''src'', ''proto'', ''public'']
      = [''README.md'', ''a.proto'', ''b.proto'']"
    "entries (fs stage_locked) [''src'', ''proto'', ''public'']
      = [''README.md'', ''a.proto'', ''b.proto'']"
    by code_simp+
  have q: "filter (\<lambda>f. suffix ''.proto'' f) [''README.md'', ''a.proto'', ''b.proto'']
      = [''a.proto'', ''b.proto'']"
    by (simp add: Ext_proto_iff [symmetric] Ext_def)
  have apart: "\<forall>f \<in> set [''README.md'', ''a.proto'', ''b.proto''].
          suffix ''.proto'' f \<longrightarrow>
          Join [''src'', ''proto'', ''public''] [f] \<noteq> [''stage'', ''catalog.proto'']"
    by (simp add: Join_def clean_step_def)
  have a: "fst (CopyProtobuf ''catalog'' [''src''] [''stage''] False stage_short_disk)
     = Some (CopyProtoFailed ''no space left on device'')"
    by code_simp
  have b: "fst (CopyProtobuf ''catalog'' [''src''] [''stage''] False stage_locked)
     = Some (OpenProtoFailed ''permission denied'')"
    by code_simp
  have c: "map_of (fs (snd (CopyProtobuf ''catalog'' [''src''] [''stage''] False stage_locked)))
        [''stage'', ''catalog.proto''] = Some (File ''first'')"
    by code_simp
  have a': "CopyProtobuf ''catalog'' [''src''] [''stage''] False stage_short_disk
      = (Some (CopyProtoFailed ''no space left on device''),
         snd (CopyProtobuf ''catalog'' [''src''] [''stage''] False stage_short_disk))"
    using a by (metis prod.collapse)
  have b': "CopyProtobuf ''catalog'' [''src''] [''stage''] False stage_locked
      = (Some (OpenProtoFailed ''permission denied''),
         snd (CopyProtobuf ''catalog'' [''src''] [''stage''] False stage_locked))"
    using b by (metis prod.collapse)
  from extraction_error_states [OF a'] extraction_error_states [OF b'] apart a b c
  show ?thesis unfolding j e q Let_def by simp
qed

section \<open>Collection\<close>








section \<open>Destruction\<close>




end
